theory Spec2Isabelle
  imports Main "HOL-Library.Multiset"
begin

section \<open>Data model\<close>

text \<open>
  The planner of \<^verbatim>\<open>src/backend/plannerLogic.js\<close> works on plain JavaScript objects.
  Each object shape is a record; a field that may be \<^verbatim>\<open>null\<close>, \<^verbatim>\<open>undefined\<close> or (for
  \<^verbatim>\<open>options_pool\<close>) not an array is an \<open>option\<close>, with \<open>None\<close> for every value on which
  the guards of the source (\<^verbatim>\<open>x && ...\<close>, \<^verbatim>\<open>x || []\<close>, \<^verbatim>\<open>Array.isArray\<close>) take the
  "absent" branch. Identifiers are strings, credits and years are integers.
\<close>

datatype error = TypeError | Error string

text \<open>
  A value stored in the \<^verbatim>\<open>prereqStatus\<close> map. \<^verbatim>\<open>prereqStatus.get(k) - 1\<close> is \<^verbatim>\<open>NaN\<close>
  when the key is missing (\<^verbatim>\<open>undefined - 1\<close>), and stays \<^verbatim>\<open>NaN\<close> afterwards.
\<close>

datatype jsnum = Num int | NaN

record course =
  course_id :: string
  name :: string
  credits :: int
  prerequisites :: "string list option"
  semesters_offered :: "string list option"

record requirement =
  program_id :: nat
  options_pool :: "string list option"

text \<open>A row of the second query: \<^verbatim>\<open>SELECT r.*, p.name AS program_name\<close>.\<close>

record requirement_row = requirement +
  program_name :: string

text \<open>The entries \<^verbatim>\<open>{id, name, credits}\<close> pushed onto a slot's \<^verbatim>\<open>courses\<close>.\<close>

record scheduledCourse =
  sc_id :: string
  sc_name :: string
  sc_credits :: int

text \<open>A slot \<^verbatim>\<open>{year, semester, courses, credits}\<close>; its credit total is \<open>slot_credits\<close>.\<close>

record scheduleSlot =
  year :: int
  semester :: string
  courses :: "scheduledCourse list"
  slot_credits :: int

record unmetRequirement =
  unmet_course_id :: string
  reason :: string

record plan =
  schedule :: "scheduleSlot list"
  unmet_requirements :: "unmetRequirement list"
  message :: string

type_synonym lookup = "string \<rightharpoonup> course"
type_synonym status = "string \<rightharpoonup> jsnum"
type_synonym planState = "string list \<times> status \<times> scheduleSlot list"

section \<open>generatePlan\<close>

subsection \<open>Requirement resolution\<close>

text \<open>\<^verbatim>\<open>new Map(catalog.map(c => [c.course_id, c]))\<close>: a later entry replaces an earlier one.\<close>

definition setEntry :: "course \<Rightarrow> lookup \<Rightarrow> lookup" where
  "setEntry c m = m(course_id c \<mapsto> c)"

definition courseLookupOf :: "course list \<Rightarrow> lookup" where
  "courseLookupOf catalog = fold setEntry catalog Map.empty"

text \<open>
  A JavaScript \<^verbatim>\<open>Set\<close> iterates in insertion order and \<^verbatim>\<open>add\<close> of a present element
  changes nothing: a list without repetitions, extended at the end.
\<close>

definition setAdd :: "string \<Rightarrow> string list \<Rightarrow> string list" where
  "setAdd i s = (if i \<in> set s then s else s @ [i])"

definition setDelete :: "string \<Rightarrow> string list \<Rightarrow> string list" where
  "setDelete i s = filter (\<lambda>j. j \<noteq> i) s"

text \<open>\<^verbatim>\<open>id => { if (courseLookup.has(id)) requiredCourseIDs.add(id) }\<close>\<close>

definition addIfKnown :: "lookup \<Rightarrow> string \<Rightarrow> string list \<Rightarrow> string list" where
  "addIfKnown courseLookup i s = (if courseLookup i \<noteq> None then setAdd i s else s)"

text \<open>\<^verbatim>\<open>req => { if (req.options_pool && Array.isArray(req.options_pool)) ... }\<close>\<close>

definition addOptionsPool ::
  "lookup \<Rightarrow> ('a requirement_scheme) \<Rightarrow> string list \<Rightarrow> string list" where
  "addOptionsPool courseLookup req s =
     (case options_pool req of
        None \<Rightarrow> s
      | Some pool \<Rightarrow> fold (addIfKnown courseLookup) pool s)"

definition requiredCourseIDs :: "('a requirement_scheme) list \<Rightarrow> lookup \<Rightarrow> string list" where
  "requiredCourseIDs requirements courseLookup =
     fold (addOptionsPool courseLookup) requirements []"

text \<open>\<^verbatim>\<open>completedCourses.forEach(id => requiredCourseIDs.delete(id)); Array.from(...)\<close>\<close>

definition initialPool ::
  "('a requirement_scheme) list \<Rightarrow> lookup \<Rightarrow> string list \<Rightarrow> string list" where
  "initialPool requirements courseLookup completedCourses =
     fold setDelete completedCourses (requiredCourseIDs requirements courseLookup)"

subsection \<open>Prerequisite counters\<close>

definition prereqsOf :: "course \<Rightarrow> string list" where
  "prereqsOf c = (case prerequisites c of None \<Rightarrow> [] | Some ps \<Rightarrow> ps)"

definition setInitialCount :: "course \<Rightarrow> status \<Rightarrow> status" where
  "setInitialCount c st = st(course_id c \<mapsto> Num (int (length (prereqsOf c))))"

definition initializePrereqStatus :: "course list \<Rightarrow> status" where
  "initializePrereqStatus catalog = fold setInitialCount catalog Map.empty"

text \<open>\<^verbatim>\<open>prereqStatus.get(k) - 1\<close>\<close>

definition getMinus1 :: "status \<Rightarrow> string \<Rightarrow> jsnum" where
  "getMinus1 st k = (case st k of Some (Num n) \<Rightarrow> Num (n - 1) | _ \<Rightarrow> NaN)"

text \<open>\<^verbatim>\<open>course.prerequisites && course.prerequisites.includes(id)\<close>\<close>

definition listsPrereq :: "course \<Rightarrow> string \<Rightarrow> bool" where
  "listsPrereq c i = (case prerequisites c of None \<Rightarrow> False | Some ps \<Rightarrow> i \<in> set ps)"

text \<open>The \<^verbatim>\<open>catalog.forEach\<close> that decrements every dependent of one identifier.\<close>

definition decrement :: "course \<Rightarrow> status \<Rightarrow> status" where
  "decrement c st = st(course_id c \<mapsto> getMinus1 st (course_id c))"

definition decrementIfDependent :: "string \<Rightarrow> course \<Rightarrow> status \<Rightarrow> status" where
  "decrementIfDependent i c st = (if listsPrereq c i then decrement c st else st)"

definition decrementDependents :: "course list \<Rightarrow> string \<Rightarrow> status \<Rightarrow> status" where
  "decrementDependents catalog i st = fold (decrementIfDependent i) catalog st"

text \<open>The pre-seeding pass over \<^verbatim>\<open>completedCourses\<close>.\<close>

definition preseedOne :: "course list \<Rightarrow> lookup \<Rightarrow> string \<Rightarrow> status \<Rightarrow> status" where
  "preseedOne catalog courseLookup completedId st =
     (case courseLookup completedId of
        None \<Rightarrow> st
      | Some completedCourse \<Rightarrow> decrementDependents catalog completedId st)"

definition preseed :: "course list \<Rightarrow> lookup \<Rightarrow> string list \<Rightarrow> status \<Rightarrow> status" where
  "preseed catalog courseLookup completedCourses st =
     fold (preseedOne catalog courseLookup) completedCourses st"

subsection \<open>One semester\<close>

definition MAX_CREDITS :: int where
  "MAX_CREDITS = 16"

definition semesters :: "string list" where
  "semesters = [''Fall'', ''Spring'']"

text \<open>
  \<^verbatim>\<open>coursePool.map(id => courseLookup.get(id))\<close> followed by a filter whose callback
  reads \<^verbatim>\<open>course.semesters_offered\<close>: an identifier without a catalog entry maps to
  \<^verbatim>\<open>undefined\<close> and the callback throws a TypeError.
\<close>

fun lookupAll :: "lookup \<Rightarrow> string list \<Rightarrow> error + course list" where
  "lookupAll courseLookup [] = Inr []"
| "lookupAll courseLookup (i # is) =
     (case courseLookup i of
        None \<Rightarrow> Inl TypeError
      | Some c \<Rightarrow> (case lookupAll courseLookup is of
                    Inl e \<Rightarrow> Inl e
                  | Inr cs \<Rightarrow> Inr (c # cs)))"

definition isOffered :: "course \<Rightarrow> string \<Rightarrow> bool" where
  "isOffered c currentSemester =
     (case semesters_offered c of None \<Rightarrow> False | Some ss \<Rightarrow> currentSemester \<in> set ss)"

definition prereqsMet :: "status \<Rightarrow> course \<Rightarrow> bool" where
  "prereqsMet st c = (st (course_id c) = Some (Num 0))"

text \<open>
  The sort key \<^verbatim>\<open>semesters_offered.length\<close>. Every course that passed the filter has the
  field, so the \<open>None\<close> branch is never evaluated by the planner.
\<close>

definition offeredCount :: "course \<Rightarrow> nat" where
  "offeredCount c = (case semesters_offered c of None \<Rightarrow> 0 | Some ss \<Rightarrow> length ss)"

text \<open>
  \<^verbatim>\<open>Array.prototype.sort\<close> with the comparator \<^verbatim>\<open>a.semesters_offered.length -
  b.semesters_offered.length\<close>: ascending in the key and stable (ECMAScript 2019), which is
  what insertion sort by key computes.
\<close>

definition arraySort :: "course list \<Rightarrow> course list" where
  "arraySort cs = sort_key offeredCount cs"

definition emptySlot :: "int \<Rightarrow> string \<Rightarrow> scheduleSlot" where
  "emptySlot currentYear currentSemester =
     \<lparr>year = currentYear, semester = currentSemester, courses = [], slot_credits = 0\<rparr>"

text \<open>\<^verbatim>\<open>{id: course.course_id, name: course.name, credits: course.credits}\<close>\<close>

definition slotEntry :: "course \<Rightarrow> scheduledCourse" where
  "slotEntry c = \<lparr>sc_id = course_id c, sc_name = name c, sc_credits = credits c\<rparr>"

definition scheduleOne ::
  "course \<Rightarrow> scheduleSlot \<times> string list \<Rightarrow> scheduleSlot \<times> string list" where
  "scheduleOne c acc =
     (case acc of (scheduleSlot, scheduledThisSemester) \<Rightarrow>
        if slot_credits scheduleSlot + credits c \<le> MAX_CREDITS
        then (scheduleSlot\<lparr>courses := courses scheduleSlot @ [slotEntry c],
               slot_credits := slot_credits scheduleSlot + credits c\<rparr>,
              scheduledThisSemester @ [course_id c])
        else (scheduleSlot, scheduledThisSemester))"

text \<open>\<^verbatim>\<open>for (const course of eligibleCourses) { if (...) {...} }\<close>\<close>

definition scheduleCourses ::
  "course list \<Rightarrow> scheduleSlot \<times> string list \<Rightarrow> scheduleSlot \<times> string list" where
  "scheduleCourses eligibleCourses acc = fold scheduleOne eligibleCourses acc"

text \<open>\<^verbatim>\<open>scheduledThisSemester.forEach(scheduledId => {...})\<close>\<close>

definition updateOne ::
  "course list \<Rightarrow> string \<Rightarrow> string list \<times> status \<Rightarrow> string list \<times> status" where
  "updateOne catalog scheduledId ps =
     (case ps of (coursePool, st) \<Rightarrow>
        (filter (\<lambda>i. i \<noteq> scheduledId) coursePool,
         decrementDependents catalog scheduledId st))"

definition updateState ::
  "course list \<Rightarrow> string list \<Rightarrow> string list \<times> status \<Rightarrow> string list \<times> status" where
  "updateState catalog scheduledThisSemester ps =
     fold (updateOne catalog) scheduledThisSemester ps"

text \<open>
  The body of the inner \<^verbatim>\<open>for\<close> loop. The engine's sort is the parameter \<open>srt\<close>;
  \<open>generatePlan\<close> below fixes it to \<open>arraySort\<close>.
\<close>

definition eligibleCourses ::
  "(course list \<Rightarrow> course list) \<Rightarrow> status \<Rightarrow> string \<Rightarrow> course list \<Rightarrow> course list" where
  "eligibleCourses srt st currentSemester cs =
     srt (filter (\<lambda>c. isOffered c currentSemester \<and> prereqsMet st c) cs)"

definition scheduleSemester ::
  "(course list \<Rightarrow> course list) \<Rightarrow> course list \<Rightarrow> lookup \<Rightarrow> int \<Rightarrow> nat \<Rightarrow> string \<Rightarrow>
     planState \<Rightarrow> error + planState" where
  "scheduleSemester srt catalog courseLookup startYear yr currentSemester state =
     (case state of (coursePool, st, sched) \<Rightarrow>
        (case lookupAll courseLookup coursePool of
           Inl e \<Rightarrow> Inl e
         | Inr cs \<Rightarrow>
             (case scheduleCourses (eligibleCourses srt st currentSemester cs)
                     (emptySlot (startYear + int yr) currentSemester, []) of
                (scheduleSlot, scheduledThisSemester) \<Rightarrow>
                  (case updateState catalog scheduledThisSemester (coursePool, st) of
                     (coursePool', st') \<Rightarrow> Inr (coursePool', st', sched @ [scheduleSlot])))))"

subsection \<open>The term loop and the result\<close>

text \<open>A \<^verbatim>\<open>for\<close> loop whose body may throw: the first error ends the run.\<close>

fun forEachE :: "('a \<Rightarrow> 's \<Rightarrow> error + 's) \<Rightarrow> 'a list \<Rightarrow> 's \<Rightarrow> error + 's" where
  "forEachE f [] s = Inr s"
| "forEachE f (x # xs) s = (case f x s of Inl e \<Rightarrow> Inl e | Inr s' \<Rightarrow> forEachE f xs s')"

definition termLoop ::
  "(course list \<Rightarrow> course list) \<Rightarrow> course list \<Rightarrow> lookup \<Rightarrow> int \<Rightarrow> planState \<Rightarrow>
     error + planState" where
  "termLoop srt catalog courseLookup startYear state =
     forEachE (\<lambda>yr. forEachE (scheduleSemester srt catalog courseLookup startYear yr) semesters)
       [0, 1, 2, 3] state"

definition digitChar :: "nat \<Rightarrow> char" where
  "digitChar d = ''0123456789'' ! d"

text \<open>The decimal numeral a template literal prints for a non-negative integer.\<close>

fun showNat :: "nat \<Rightarrow> string" where
  "showNat n = (if n < 10 then [digitChar n] else showNat (n div 10) @ [digitChar (n mod 10)])"

declare showNat.simps [simp del]

definition unmetReason :: string where
  "unmetReason = ''Could not be scheduled due to timing, prerequisites, or credit limits.''"

definition finalOutput :: "planState \<Rightarrow> plan" where
  "finalOutput state =
     (case state of (coursePool, st, sched) \<Rightarrow>
        \<lparr>schedule = sched,
         unmet_requirements = map (\<lambda>i. \<lparr>unmet_course_id = i, reason = unmetReason\<rparr>) coursePool,
         message = ''Plan generated successfully, with '' @ showNat (length coursePool) @
                   '' requirements left unmet.''\<rparr>)"

text \<open>The state with which the term loop starts.\<close>

definition initialState ::
  "('a requirement_scheme) list \<Rightarrow> course list \<Rightarrow> string list \<Rightarrow> planState" where
  "initialState requirements catalog completedCourses =
     (initialPool requirements (courseLookupOf catalog) completedCourses,
      preseed catalog (courseLookupOf catalog) completedCourses (initializePrereqStatus catalog),
      [])"

definition generatePlanWith ::
  "(course list \<Rightarrow> course list) \<Rightarrow> ('a requirement_scheme) list \<Rightarrow> course list \<Rightarrow>
     string list \<Rightarrow> int \<Rightarrow> error + plan" where
  "generatePlanWith srt requirements catalog completedCourses startYear =
     (case termLoop srt catalog (courseLookupOf catalog) startYear
             (initialState requirements catalog completedCourses) of
        Inl e \<Rightarrow> Inl e
      | Inr state \<Rightarrow> Inr (finalOutput state))"

definition generatePlan ::
  "('a requirement_scheme) list \<Rightarrow> course list \<Rightarrow> string list \<Rightarrow> int \<Rightarrow> error + plan" where
  "generatePlan requirements catalog completedCourses startYear =
     generatePlanWith arraySort requirements catalog completedCourses startYear"

section \<open>getRequirements\<close>

text \<open>
  \<^verbatim>\<open>getRequirements\<close> reads three tables through \<^verbatim>\<open>db.query\<close>. The module \<^verbatim>\<open>./db\<close> is not
  part of the repository's sources; the database is a parameter holding the rows of the three
  tables, and each query is the selection its SQL text denotes. Rows come in table order
  (SQL leaves the order open). A rejected query, which the source does not catch, has no
  counterpart here: the queries of the model always answer.
\<close>

text \<open>A row of \<^verbatim>\<open>Programs\<close>: the columns \<^verbatim>\<open>program_id\<close> and \<^verbatim>\<open>name\<close>.\<close>

record program =
  p_program_id :: nat
  p_name :: string

record database =
  Programs :: "program list"
  Requirements :: "requirement list"
  Courses :: "course list"

text \<open>The returned object \<^verbatim>\<open>{requirements: ..., catalog: ...}\<close>.\<close>

record requirementsResult =
  result_requirements :: "requirement_row list"
  result_catalog :: "course list"

text \<open>
  \<^verbatim>\<open>[major, minor, concentration].filter(Boolean)\<close>: \<^verbatim>\<open>null\<close>, \<^verbatim>\<open>undefined\<close> (here \<open>None\<close>)
  and the empty string are dropped.
\<close>

definition keepTruthy :: "string option \<Rightarrow> string list" where
  "keepTruthy x = (case x of None \<Rightarrow> [] | Some s \<Rightarrow> if s = [] then [] else [s])"

definition selectedPrograms :: "string option \<Rightarrow> string option \<Rightarrow> string option \<Rightarrow> string list" where
  "selectedPrograms major minor concentration =
     concat (map keepTruthy [major, minor, concentration])"

text \<open>\<^verbatim>\<open>SELECT program_id FROM Programs WHERE name = ANY($1)\<close>\<close>

definition programIdsQuery :: "database \<Rightarrow> string list \<Rightarrow> nat list" where
  "programIdsQuery db programs =
     map p_program_id (filter (\<lambda>p. p_name p \<in> set programs) (Programs db))"

text \<open>
  \<^verbatim>\<open>SELECT r.*, p.name AS program_name FROM Requirements r JOIN Programs p
  ON r.program_id = p.program_id WHERE r.program_id = ANY($1)\<close>
\<close>

definition joinProgram :: "database \<Rightarrow> requirement \<Rightarrow> requirement_row list" where
  "joinProgram db r =
     map (\<lambda>p. \<lparr>program_id = program_id r, options_pool = options_pool r,
                program_name = p_name p\<rparr>)
       (filter (\<lambda>p. program_id r = p_program_id p) (Programs db))"

definition requirementsQuery :: "database \<Rightarrow> nat list \<Rightarrow> requirement_row list" where
  "requirementsQuery db ids =
     concat (map (joinProgram db) (filter (\<lambda>r. program_id r \<in> set ids) (Requirements db)))"

definition getRequirements ::
  "database \<Rightarrow> string option \<Rightarrow> string option \<Rightarrow> string option \<Rightarrow>
     error + requirementsResult" where
  "getRequirements db major minor concentration =
     (let programs = selectedPrograms major minor concentration;
          ids = programIdsQuery db programs
      in if length ids = 0
         then Inl (Error ''No programs found for the selected options.'')
         else Inr \<lparr>result_requirements = requirementsQuery db ids,
                    result_catalog = Courses db\<rparr>)"

section \<open>Properties and example data\<close>

text \<open>
  The identifiers a requirement offers; a requirement without a usable
  \<^verbatim>\<open>options_pool\<close> offers none.
\<close>

definition poolOf :: "('a requirement_scheme) \<Rightarrow> string list" where
  "poolOf req = (case options_pool req of None \<Rightarrow> [] | Some pool \<Rightarrow> pool)"

text \<open>
  The walk of the specification, in its words: go through the sorted eligible list in order,
  accumulate a course when the running credits plus its credits stay within the cap, skip it
  otherwise, and go on with the rest of the list in both cases.
\<close>

fun walkUnderCap :: "int \<Rightarrow> course list \<Rightarrow> course list" where
  "walkUnderCap running [] = []"
| "walkUnderCap running (c # cs) =
     (if running + credits c \<le> MAX_CREDITS
      then c # walkUnderCap (running + credits c) cs
      else walkUnderCap running cs)"

text \<open>
  The courses one semester schedules, given the catalog entries \<open>cs\<close> of the pool.
\<close>

definition scheduledNow ::
  "(course list \<Rightarrow> course list) \<Rightarrow> status \<Rightarrow> string \<Rightarrow> course list \<Rightarrow> course list" where
  "scheduledNow srt st currentSemester cs = walkUnderCap 0 (eligibleCourses srt st currentSemester cs)"

text \<open>
  The identifiers of all entries of a schedule, slot after slot.
\<close>

definition scheduledIds :: "scheduleSlot list \<Rightarrow> string list" where
  "scheduledIds sched = concat (map (\<lambda>s. map sc_id (courses s)) sched)"

text \<open>
  A slot as the term loop builds it: each entry copies a catalog course that is offered in
  the slot's term, the stored total is the sum of the entries' credits, and it is within the
  cap.
\<close>

definition slotOK :: "lookup \<Rightarrow> scheduleSlot \<Rightarrow> bool" where
  "slotOK L s =
     ((\<forall>e\<in>set (courses s). \<exists>c ss. L (sc_id e) = Some c \<and> e = slotEntry c \<and>
          semesters_offered c = Some ss \<and> semester s \<in> set ss) \<and>
      slot_credits s = sum_list (map sc_credits (courses s)) \<and>
      slot_credits s \<le> MAX_CREDITS)"

text \<open>
  The invariant of the term loop: the scheduled identifiers and the pool are disjoint and
  free of repetitions, together they are the initial pool, and every slot is well formed.
\<close>

definition planInv :: "course list \<Rightarrow> string list \<Rightarrow> planState \<Rightarrow> bool" where
  "planInv catalog pool0 state =
     (case state of (pool, st, sched) \<Rightarrow>
        distinct (scheduledIds sched @ pool) \<and>
        set (scheduledIds sched) \<union> set pool = set pool0 \<and>
        (\<forall>s\<in>set sched. slotOK (courseLookupOf catalog) s))"

text \<open>
  The (year, term) labels of the slots built so far.
\<close>

definition termLabels :: "planState \<Rightarrow> (int \<times> string) list" where
  "termLabels state = (case state of (pool, st, sched) \<Rightarrow> map (\<lambda>s. (year s, semester s)) sched)"

text \<open>
  The counter a course should hold once the identifiers in \<open>D\<close> have been processed: the
  length of its prerequisite list minus the number of distinct prerequisites in \<open>D\<close>.
\<close>

definition cnt :: "string set \<Rightarrow> course \<Rightarrow> int" where
  "cnt D c = int (length (prereqsOf c)) - int (card (set (prereqsOf c) \<inter> D))"

text \<open>
  The counter map holds exactly these values, for the catalog's courses and no other key.
\<close>

definition countersOK :: "course list \<Rightarrow> string set \<Rightarrow> status \<Rightarrow> bool" where
  "countersOK catalog D st =
     (dom st \<subseteq> course_id ` set catalog \<and>
      (\<forall>c\<in>set catalog. st (course_id c) = Some (Num (cnt D c))))"

text \<open>
  Every value the counter map holds is a number, and none is negative.
\<close>

definition nonNegative :: "status \<Rightarrow> bool" where
  "nonNegative st = (\<forall>k v. st k = Some v \<longrightarrow> (\<exists>n. v = Num n \<and> 0 \<le> n))"

text \<open>
  The completed identifiers the pre-seeding pass acts on: those with a catalog entry.
\<close>

definition doneSet :: "course list \<Rightarrow> string list \<Rightarrow> string set" where
  "doneSet catalog completedCourses =
     {i \<in> set completedCourses. courseLookupOf catalog i \<noteq> None}"

text \<open>
  Every prerequisite of a slot entry's course is a completed course or among the identifiers
  \<open>earlier\<close>.
\<close>

definition entryPrereqsIn :: "lookup \<Rightarrow> string list \<Rightarrow> string list \<Rightarrow> scheduledCourse \<Rightarrow> bool" where
  "entryPrereqsIn L completedCourses earlier e =
     (case L (sc_id e) of
        None \<Rightarrow> False
      | Some c \<Rightarrow> \<forall>q\<in>set (prereqsOf c). q \<in> set completedCourses \<or> q \<in> set earlier)"

text \<open>
  Every entry of every slot has its prerequisites among the completed courses and the
  entries of the strictly earlier slots.
\<close>

definition prerequisitesRespected :: "lookup \<Rightarrow> string list \<Rightarrow> scheduleSlot list \<Rightarrow> bool" where
  "prerequisitesRespected L completedCourses sched =
     (\<forall>k\<in>{..<length sched}. \<forall>e\<in>set (courses (sched ! k)).
        entryPrereqsIn L completedCourses (scheduledIds (take k sched)) e)"

text \<open>
  The second invariant of the term loop, for inputs without repeated identifiers: the
  counters are those of the completed and the scheduled identifiers, the pool contains no
  completed course, and the slots built so far respect the prerequisites.
\<close>

definition counterInv :: "course list \<Rightarrow> string list \<Rightarrow> planState \<Rightarrow> bool" where
  "counterInv catalog completedCourses state =
     (case state of (pool, st, sched) \<Rightarrow>
        countersOK catalog (doneSet catalog completedCourses \<union> set (scheduledIds sched)) st \<and>
        set pool \<inter> set completedCourses = {} \<and>
        prerequisitesRespected (courseLookupOf catalog) completedCourses sched)"

text \<open>
  The resolved required set in the specification's words: the entries of the requirements'
  pools that exist in the catalog, without the completed courses.
\<close>

definition resolvedRequired ::
  "('a requirement_scheme) list \<Rightarrow> course list \<Rightarrow> string list \<Rightarrow> string list" where
  "resolvedRequired requirements catalog completedCourses =
     filter (\<lambda>i. i \<in> course_id ` set catalog \<and> i \<notin> set completedCourses)
       (concat (map poolOf requirements))"

text \<open>
  The identifiers reported in \<^verbatim>\<open>unmet_requirements\<close>.
\<close>

definition unmetIds :: "plan \<Rightarrow> string list" where
  "unmetIds p = map unmet_course_id (unmet_requirements p)"

text \<open>
  An example input: \<^verbatim>\<open>CS201\<close> depends on \<^verbatim>\<open>CS101\<close>, \<^verbatim>\<open>CS900\<close> exceeds the cap by itself,
  \<^verbatim>\<open>CS300\<close> has no \<^verbatim>\<open>semesters_offered\<close>, and the requirements name an identifier
  (\<^verbatim>\<open>CS999\<close>) the catalog does not know.
\<close>

definition exampleCatalog :: "course list" where
  "exampleCatalog =
     [\<lparr>course_id = ''CS101'', name = ''Programming'', credits = 4,
        prerequisites = None, semesters_offered = Some [''Fall'']\<rparr>,
      \<lparr>course_id = ''CS201'', name = ''Data Structures'', credits = 4,
        prerequisites = Some [''CS101''], semesters_offered = Some [''Spring'']\<rparr>,
      \<lparr>course_id = ''CS900'', name = ''Thesis'', credits = 20,
        prerequisites = Some [], semesters_offered = Some [''Fall'']\<rparr>,
      \<lparr>course_id = ''CS300'', name = ''Seminar'', credits = 1,
        prerequisites = None, semesters_offered = None\<rparr>]"

definition exampleRequirements :: "requirement list" where
  "exampleRequirements =
     [\<lparr>program_id = 1, options_pool = Some [''CS201'', ''CS101'', ''CS900'', ''CS300'', ''CS999'']\<rparr>,
      \<lparr>program_id = 1, options_pool = None\<rparr>]"

text \<open>
  The plan \<open>generatePlan\<close> returns for the example input, the completed courses
  \<^verbatim>\<open>['MATH1']\<close> and the start year 2024.
\<close>

definition examplePlan :: plan where
  "examplePlan =
     \<lparr>schedule =
        [\<lparr>year = 2024, semester = ''Fall'',
           courses = [\<lparr>sc_id = ''CS101'', sc_name = ''Programming'', sc_credits = 4\<rparr>],
           slot_credits = 4\<rparr>,
         \<lparr>year = 2024, semester = ''Spring'',
           courses = [\<lparr>sc_id = ''CS201'', sc_name = ''Data Structures'', sc_credits = 4\<rparr>],
           slot_credits = 4\<rparr>,
         \<lparr>year = 2025, semester = ''Fall'', courses = [], slot_credits = 0\<rparr>,
         \<lparr>year = 2025, semester = ''Spring'', courses = [], slot_credits = 0\<rparr>,
         \<lparr>year = 2026, semester = ''Fall'', courses = [], slot_credits = 0\<rparr>,
         \<lparr>year = 2026, semester = ''Spring'', courses = [], slot_credits = 0\<rparr>,
         \<lparr>year = 2027, semester = ''Fall'', courses = [], slot_credits = 0\<rparr>,
         \<lparr>year = 2027, semester = ''Spring'', courses = [], slot_credits = 0\<rparr>],
      unmet_requirements =
        [\<lparr>unmet_course_id = ''CS900'', reason = unmetReason\<rparr>,
         \<lparr>unmet_course_id = ''CS300'', reason = unmetReason\<rparr>],
      message = ''Plan generated successfully, with 2 requirements left unmet.''\<rparr>"

text \<open>
  Every entry of the slot is a catalog course that lists the slot's term in its
  \<^verbatim>\<open>semesters_offered\<close>.
\<close>

definition offeredWhenScheduled :: "lookup \<Rightarrow> scheduleSlot \<Rightarrow> bool" where
  "offeredWhenScheduled L s =
     (\<forall>e\<in>set (courses s).
        case L (sc_id e) of
          None \<Rightarrow> False
        | Some c \<Rightarrow> (case semesters_offered c of
                       None \<Rightarrow> False
                     | Some ss \<Rightarrow> semester s \<in> set ss))"

text \<open>
  The entry's identifier has a catalog course, and that course has a
  \<^verbatim>\<open>semesters_offered\<close> field.
\<close>

definition entryInCatalog :: "course list \<Rightarrow> scheduledCourse \<Rightarrow> bool" where
  "entryInCatalog catalog e =
     (case courseLookupOf catalog (sc_id e) of
        None \<Rightarrow> False
      | Some c \<Rightarrow> c \<in> set catalog \<and> semesters_offered c \<noteq> None)"

text \<open>
  An input with a completed course listed twice: \<^verbatim>\<open>MATH2\<close> requires \<^verbatim>\<open>MATH1\<close> and
  \<^verbatim>\<open>PHYS1\<close>, and only \<^verbatim>\<open>MATH1\<close> is completed.
\<close>

definition repeatCatalog :: "course list" where
  "repeatCatalog =
     [\<lparr>course_id = ''MATH2'', name = ''Calculus II'', credits = 4,
        prerequisites = Some [''MATH1'', ''PHYS1''], semesters_offered = Some [''Fall'']\<rparr>,
      \<lparr>course_id = ''MATH1'', name = ''Calculus I'', credits = 4,
        prerequisites = None, semesters_offered = Some [''Fall'']\<rparr>,
      \<lparr>course_id = ''PHYS1'', name = ''Mechanics'', credits = 4,
        prerequisites = None, semesters_offered = Some [''Spring'']\<rparr>]"

definition repeatRequirements :: "requirement list" where
  "repeatRequirements = [\<lparr>program_id = 1, options_pool = Some [''MATH2'']\<rparr>]"

text \<open>
  The plan \<open>generatePlan\<close> returns for it with \<^verbatim>\<open>completedCourses = ['MATH1', 'MATH1']\<close>.
\<close>

definition repeatPlan :: plan where
  "repeatPlan =
     \<lparr>schedule =
        [\<lparr>year = 2024, semester = ''Fall'',
           courses = [\<lparr>sc_id = ''MATH2'', sc_name = ''Calculus II'', sc_credits = 4\<rparr>],
           slot_credits = 4\<rparr>,
         \<lparr>year = 2024, semester = ''Spring'', courses = [], slot_credits = 0\<rparr>,
         \<lparr>year = 2025, semester = ''Fall'', courses = [], slot_credits = 0\<rparr>,
         \<lparr>year = 2025, semester = ''Spring'', courses = [], slot_credits = 0\<rparr>,
         \<lparr>year = 2026, semester = ''Fall'', courses = [], slot_credits = 0\<rparr>,
         \<lparr>year = 2026, semester = ''Spring'', courses = [], slot_credits = 0\<rparr>,
         \<lparr>year = 2027, semester = ''Fall'', courses = [], slot_credits = 0\<rparr>,
         \<lparr>year = 2027, semester = ''Spring'', courses = [], slot_credits = 0\<rparr>],
      unmet_requirements = [],
      message = ''Plan generated successfully, with 0 requirements left unmet.''\<rparr>"

text \<open>
  The run as a sequence of counter maps. Every \<^verbatim>\<open>prereqStatus.set\<close> of the source writes
  one map; the functions below follow the loops of \<open>generatePlan\<close> and list the maps in the
  order in which they are written.
\<close>

fun foldTrace :: "('a \<Rightarrow> 's \<Rightarrow> 's) \<Rightarrow> ('a \<Rightarrow> 's \<Rightarrow> 't list) \<Rightarrow> 'a list \<Rightarrow> 's \<Rightarrow> 't list" where
  "foldTrace f tr [] s = []"
| "foldTrace f tr (x # xs) s = tr x s @ foldTrace f tr xs (f x s)"

fun forEachETrace ::
  "('a \<Rightarrow> 's \<Rightarrow> error + 's) \<Rightarrow> ('a \<Rightarrow> 's \<Rightarrow> 't list) \<Rightarrow> 'a list \<Rightarrow> 's \<Rightarrow> 't list" where
  "forEachETrace f tr [] s = []"
| "forEachETrace f tr (x # xs) s =
     tr x s @ (case f x s of Inl e \<Rightarrow> [] | Inr s' \<Rightarrow> forEachETrace f tr xs s')"

definition initializeTrace :: "course list \<Rightarrow> status list" where
  "initializeTrace catalog =
     foldTrace setInitialCount (\<lambda>c st. [setInitialCount c st]) catalog Map.empty"

definition decrementTrace :: "string \<Rightarrow> course \<Rightarrow> status \<Rightarrow> status list" where
  "decrementTrace i c st = (if listsPrereq c i then [decrement c st] else [])"

definition decrementDependentsTrace :: "course list \<Rightarrow> string \<Rightarrow> status \<Rightarrow> status list" where
  "decrementDependentsTrace catalog i st =
     foldTrace (decrementIfDependent i) (decrementTrace i) catalog st"

definition preseedOneTrace :: "course list \<Rightarrow> lookup \<Rightarrow> string \<Rightarrow> status \<Rightarrow> status list" where
  "preseedOneTrace catalog courseLookup completedId st =
     (case courseLookup completedId of
        None \<Rightarrow> []
      | Some completedCourse \<Rightarrow> decrementDependentsTrace catalog completedId st)"

definition preseedTrace :: "course list \<Rightarrow> lookup \<Rightarrow> string list \<Rightarrow> status \<Rightarrow> status list" where
  "preseedTrace catalog courseLookup completedCourses st =
     foldTrace (preseedOne catalog courseLookup) (preseedOneTrace catalog courseLookup)
       completedCourses st"

definition updateStateTrace :: "course list \<Rightarrow> string list \<Rightarrow> status \<Rightarrow> status list" where
  "updateStateTrace catalog scheduledThisSemester st =
     foldTrace (decrementDependents catalog) (decrementDependentsTrace catalog)
       scheduledThisSemester st"

definition scheduledThisSemester ::
  "(course list \<Rightarrow> course list) \<Rightarrow> status \<Rightarrow> string \<Rightarrow> course list \<Rightarrow> string list" where
  "scheduledThisSemester srt st currentSemester cs =
     snd (scheduleCourses (eligibleCourses srt st currentSemester cs)
            (emptySlot 0 currentSemester, []))"

definition semesterTrace ::
  "(course list \<Rightarrow> course list) \<Rightarrow> course list \<Rightarrow> lookup \<Rightarrow> string \<Rightarrow> planState \<Rightarrow> status list" where
  "semesterTrace srt catalog courseLookup currentSemester state =
     (case state of (coursePool, st, sched) \<Rightarrow>
        (case lookupAll courseLookup coursePool of
           Inl e \<Rightarrow> []
         | Inr cs \<Rightarrow>
             updateStateTrace catalog (scheduledThisSemester srt st currentSemester cs) st))"

definition termLoopTrace ::
  "(course list \<Rightarrow> course list) \<Rightarrow> course list \<Rightarrow> lookup \<Rightarrow> int \<Rightarrow> planState \<Rightarrow> status list" where
  "termLoopTrace srt catalog courseLookup startYear state =
     forEachETrace
       (\<lambda>yr. forEachE (scheduleSemester srt catalog courseLookup startYear yr) semesters)
       (\<lambda>yr. forEachETrace (scheduleSemester srt catalog courseLookup startYear yr)
                (semesterTrace srt catalog courseLookup) semesters)
       [0, 1, 2, 3] state"

definition counterTrace ::
  "('a requirement_scheme) list \<Rightarrow> course list \<Rightarrow> string list \<Rightarrow> int \<Rightarrow> status list" where
  "counterTrace requirements catalog completedCourses startYear =
     initializeTrace catalog @
     preseedTrace catalog (courseLookupOf catalog) completedCourses
       (initializePrereqStatus catalog) @
     termLoopTrace arraySort catalog (courseLookupOf catalog) startYear
       (initialState requirements catalog completedCourses)"

text \<open>
  A catalog in which \<^verbatim>\<open>MATH2\<close> requires \<^verbatim>\<open>MATH1\<close> only.
\<close>

definition doubleCatalog :: "course list" where
  "doubleCatalog =
     [\<lparr>course_id = ''MATH2'', name = ''Calculus II'', credits = 4,
        prerequisites = Some [''MATH1''], semesters_offered = Some [''Fall'']\<rparr>,
      \<lparr>course_id = ''MATH1'', name = ''Calculus I'', credits = 4,
        prerequisites = None, semesters_offered = Some [''Fall'']\<rparr>]"



text \<open>The supplied names that resolve: some program of the table carries the name.\<close>

definition resolves :: "database \<Rightarrow> string list \<Rightarrow> bool" where
  "resolves db programs = (\<exists>p\<in>set (Programs db). p_name p \<in> set programs)"

text \<open>The requirements of the resolved programs, as a set of table rows.\<close>

definition requirementsOfResolved :: "database \<Rightarrow> string list \<Rightarrow> requirement set" where
  "requirementsOfResolved db programs =
     {r \<in> set (Requirements db).
        \<exists>p\<in>set (Programs db). p_name p \<in> set programs \<and> p_program_id p = program_id r}"

text \<open>
  The \<^verbatim>\<open>Requirements\<close> columns of a returned row.
\<close>

definition rowRequirement :: "requirement_row \<Rightarrow> requirement" where
  "rowRequirement row = \<lparr>program_id = program_id row, options_pool = options_pool row\<rparr>"

text \<open>
  A database with two programs and three requirement rows.
\<close>

definition exampleDatabase :: database where
  "exampleDatabase =
     \<lparr>Programs =
        [\<lparr>p_program_id = 1, p_name = ''Computer Science''\<rparr>,
         \<lparr>p_program_id = 2, p_name = ''Mathematics''\<rparr>],
      Requirements =
        [\<lparr>program_id = 1, options_pool = Some [''CS101'', ''CS201'']\<rparr>,
         \<lparr>program_id = 2, options_pool = Some [''MATH1'']\<rparr>,
         \<lparr>program_id = 1, options_pool = None\<rparr>],
      Courses = exampleCatalog\<rparr>"



section \<open>Verification\<close>

subsection \<open>The catalog lookup\<close>

lemma fold_lookup_Some:
  "fold setEntry cs m i = Some c \<Longrightarrow> (c \<in> set cs \<and> course_id c = i) \<or> m i = Some c"
proof (induction cs arbitrary: m)
  case Nil
  then show ?case by simp
next
  case (Cons a cs)
  from Cons.prems have "fold setEntry cs (setEntry a m) i = Some c" by simp
  from Cons.IH [OF this] show ?case
    by (auto simp: setEntry_def split: if_splits)
qed

lemma fold_lookup_dom:
  "dom (fold setEntry cs m) = dom m \<union> course_id ` set cs"
  by (induction cs arbitrary: m) (auto simp: setEntry_def)

lemma fold_lookup_other:
  "i \<notin> course_id ` set cs \<Longrightarrow> fold setEntry cs m i = m i"
  by (induction cs arbitrary: m) (auto simp: setEntry_def)

lemma fold_lookup_distinct:
  "distinct (map course_id cs) \<Longrightarrow> c \<in> set cs \<Longrightarrow> fold setEntry cs m (course_id c) = Some c"
proof (induction cs arbitrary: m)
  case Nil
  then show ?case by simp
next
  case (Cons a cs)
  show ?case
  proof (cases "c \<in> set cs")
    case True
    with Cons show ?thesis by simp
  next
    case False
    with Cons.prems have ca: "c = a" by simp
    have "course_id a \<notin> course_id ` set cs" using Cons.prems by simp
    then have "fold setEntry cs (setEntry a m) (course_id a) = setEntry a m (course_id a)"
      by (rule fold_lookup_other)
    moreover have "setEntry a m (course_id a) = Some a"
      by (simp add: setEntry_def)
    ultimately show ?thesis using ca by simp
  qed
qed

lemma courseLookupOf_Some:
  "courseLookupOf catalog i = Some c \<Longrightarrow> c \<in> set catalog \<and> course_id c = i"
  using fold_lookup_Some [of catalog Map.empty i c] by (simp add: courseLookupOf_def)

lemma courseLookupOf_dom: "dom (courseLookupOf catalog) = course_id ` set catalog"
  by (simp add: courseLookupOf_def fold_lookup_dom)

lemma courseLookupOf_distinct:
  "distinct (map course_id catalog) \<Longrightarrow> c \<in> set catalog \<Longrightarrow>
     courseLookupOf catalog (course_id c) = Some c"
  by (simp add: courseLookupOf_def fold_lookup_distinct)

subsection \<open>The required set and the pool\<close>

lemma set_setAdd: "set (setAdd i s) = insert i (set s)"
  by (auto simp: setAdd_def)

lemma distinct_setAdd: "distinct s \<Longrightarrow> distinct (setAdd i s)"
  by (simp add: setAdd_def)

lemma addIfKnown_props:
  "set (fold (addIfKnown L) pool s) = set s \<union> {i \<in> set pool. L i \<noteq> None}"
  "distinct s \<Longrightarrow> distinct (fold (addIfKnown L) pool s)"
  by (induction pool arbitrary: s) (auto simp: addIfKnown_def set_setAdd distinct_setAdd)

lemma addOptionsPool_props:
  "set (addOptionsPool L req s) = set s \<union> {i \<in> set (poolOf req). L i \<noteq> None}"
  "distinct s \<Longrightarrow> distinct (addOptionsPool L req s)"
  by (auto simp: addOptionsPool_def poolOf_def addIfKnown_props split: option.splits)

lemma addReqs_set:
  "set (fold (addOptionsPool L) reqs s) =
     set s \<union> {i \<in> set (concat (map poolOf reqs)). L i \<noteq> None}"
  by (induction reqs arbitrary: s) (auto simp: addOptionsPool_props)

lemma addReqs_distinct:
  "distinct s \<Longrightarrow> distinct (fold (addOptionsPool L) reqs s)"
  by (induction reqs arbitrary: s) (auto simp: addOptionsPool_props)

lemma set_requiredCourseIDs:
  "set (requiredCourseIDs requirements L) = {i \<in> set (concat (map poolOf requirements)). L i \<noteq> None}"
  by (simp add: requiredCourseIDs_def addReqs_set addReqs_distinct)

lemma distinct_requiredCourseIDs: "distinct (requiredCourseIDs requirements L)"
  by (simp add: requiredCourseIDs_def addReqs_set addReqs_distinct)

lemma fold_setDelete: "fold setDelete completed s = filter (\<lambda>i. i \<notin> set completed) s"
  by (induction completed arbitrary: s) (auto simp: setDelete_def intro: filter_cong)

lemma set_initialPool:
  "set (initialPool requirements L completedCourses) =
     {i \<in> set (concat (map poolOf requirements)). L i \<noteq> None \<and> i \<notin> set completedCourses}"
  by (auto simp: initialPool_def fold_setDelete set_requiredCourseIDs)

lemma distinct_initialPool: "distinct (initialPool requirements L completedCourses)"
  by (simp add: initialPool_def fold_setDelete distinct_requiredCourseIDs)

subsection \<open>Looking the pool up\<close>

lemma lookupAll_Inr:
  "set pool \<subseteq> dom L \<Longrightarrow> \<exists>cs. lookupAll L pool = Inr cs"
  by (induction pool) (auto split: option.splits sum.splits)

lemma lookupAll_map:
  "lookupAll L pool = Inr cs \<Longrightarrow> map Some cs = map L pool"
  by (induction pool arbitrary: cs) (auto split: option.splits sum.splits)

lemma lookupAll_Inl:
  "lookupAll L pool = Inl e \<Longrightarrow> \<not> set pool \<subseteq> dom L"
  using lookupAll_Inr [of pool L] by auto

subsection \<open>The scheduling loop is the walk of the specification\<close>

lemma scheduleCourses_walk:
  "scheduleCourses cs (slot, ids) =
     (slot\<lparr>courses := courses slot @ map slotEntry (walkUnderCap (slot_credits slot) cs),
           slot_credits := slot_credits slot +
              sum_list (map credits (walkUnderCap (slot_credits slot) cs))\<rparr>,
      ids @ map course_id (walkUnderCap (slot_credits slot) cs))"
  unfolding scheduleCourses_def
  by (induction cs arbitrary: slot ids) (simp_all add: scheduleOne_def)

lemma walkUnderCap_set: "set (walkUnderCap running cs) \<subseteq> set cs"
  by (induction cs arbitrary: running) auto

lemma walkUnderCap_distinct:
  "distinct (map f cs) \<Longrightarrow> distinct (map f (walkUnderCap running cs))"
proof (induction cs arbitrary: running)
  case Nil
  then show ?case by simp
next
  case (Cons c cs)
  have "f c \<notin> f ` set (walkUnderCap (running + credits c) cs)"
    using Cons.prems walkUnderCap_set [of "running + credits c" cs] by auto
  then show ?case using Cons by simp
qed

lemma walkUnderCap_cap:
  "running \<le> MAX_CREDITS \<Longrightarrow>
     running + sum_list (map credits (walkUnderCap running cs)) \<le> MAX_CREDITS"
proof (induction cs arbitrary: running)
  case Nil
  then show ?case by simp
next
  case (Cons c cs)
  show ?case
  proof (cases "running + credits c \<le> MAX_CREDITS")
    case True
    from Cons.IH [OF True] True show ?thesis by (simp add: add.assoc)
  next
    case False
    with Cons.IH [OF Cons.prems] show ?thesis by simp
  qed
qed

lemma updateState_eq:
  "updateState catalog ids (pool, st) =
     (filter (\<lambda>i. i \<notin> set ids) pool, fold (decrementDependents catalog) ids st)"
  unfolding updateState_def
  by (induction ids arbitrary: pool st) (auto simp: updateOne_def intro: filter_cong)

lemma scheduleSemester_eq:
  assumes "lookupAll L pool = Inr cs"
  shows "scheduleSemester srt catalog L startYear yr sem (pool, st, sched) =
     Inr (filter (\<lambda>i. i \<notin> set (map course_id (scheduledNow srt st sem cs))) pool,
          fold (decrementDependents catalog) (map course_id (scheduledNow srt st sem cs)) st,
          sched @ [\<lparr>year = startYear + int yr, semester = sem,
                    courses = map slotEntry (scheduledNow srt st sem cs),
                    slot_credits = sum_list (map credits (scheduledNow srt st sem cs))\<rparr>])"
  using assms
  by (simp add: scheduleSemester_def scheduleCourses_walk updateState_eq scheduledNow_def
      emptySlot_def)

lemma scheduledIds_snoc:
  "scheduledIds (sched @ [s]) = scheduledIds sched @ map sc_id (courses s)"
  by (simp add: scheduledIds_def)

lemma sc_id_slotEntry: "map sc_id (map slotEntry cs) = map course_id cs"
  by (simp add: slotEntry_def)

lemma sc_credits_slotEntry: "map sc_credits (map slotEntry cs) = map credits cs"
  by (simp add: slotEntry_def)

subsection \<open>Loops with an invariant\<close>

lemma forEachE_invariant:
  assumes "P s"
    and "\<And>x s. x \<in> set xs \<Longrightarrow> P s \<Longrightarrow> \<exists>s'. f x s = Inr s' \<and> P s'"
  shows "\<exists>s'. forEachE f xs s = Inr s' \<and> P s'"
  using assms
proof (induction xs arbitrary: s)
  case Nil
  then show ?case by simp
next
  case (Cons x xs)
  from Cons.prems obtain s1 where s1: "f x s = Inr s1" "P s1" by fastforce
  have "\<exists>s'. forEachE f xs s1 = Inr s' \<and> P s'"
    by (rule Cons.IH) (use s1 Cons.prems in auto)
  with s1 show ?case by simp
qed

lemma termLoop_invariant:
  assumes init: "P s"
    and step: "\<And>yr sem s. P s \<Longrightarrow>
           \<exists>s'. scheduleSemester srt catalog L startYear yr sem s = Inr s' \<and> P s'"
  shows "\<exists>s'. termLoop srt catalog L startYear s = Inr s' \<and> P s'"
proof -
  have inner: "\<exists>s'. forEachE (scheduleSemester srt catalog L startYear yr) semesters s = Inr s' \<and> P s'"
    if "P s" for yr s
    using that step by (rule forEachE_invariant)
  show ?thesis
    unfolding termLoop_def using init inner by (rule forEachE_invariant)
qed

subsection \<open>What one semester schedules\<close>

lemma set_arraySort: "set (arraySort cs) = set cs"
  by (simp add: arraySort_def)

lemma distinct_map_arraySort: "distinct (map f (arraySort cs)) = distinct (map f cs)"
proof -
  have "mset (map f (arraySort cs)) = mset (map f cs)"
    by (simp add: arraySort_def)
  then show ?thesis by (rule mset_eq_imp_distinct_iff)
qed

lemma lookupAll_catalog_all:
  "lookupAll (courseLookupOf catalog) pool = Inr cs \<Longrightarrow>
     map course_id cs = pool \<and> set cs \<subseteq> set catalog \<and>
     (\<forall>c\<in>set cs. courseLookupOf catalog (course_id c) = Some c)"
proof (induction pool arbitrary: cs)
  case Nil
  then show ?case by simp
next
  case (Cons i pool)
  from Cons.prems obtain c cs' where
    c: "courseLookupOf catalog i = Some c" and
    cs': "lookupAll (courseLookupOf catalog) pool = Inr cs'" and
    cs: "cs = c # cs'"
    by (auto split: option.splits sum.splits)
  from c have "c \<in> set catalog" "course_id c = i"
    using courseLookupOf_Some by blast+
  with Cons.IH [OF cs'] c cs show ?case by simp
qed

lemma lookupAll_catalog:
  assumes "lookupAll (courseLookupOf catalog) pool = Inr cs"
  shows "map course_id cs = pool"
    and "set cs \<subseteq> set catalog"
    and "\<And>c. c \<in> set cs \<Longrightarrow> courseLookupOf catalog (course_id c) = Some c"
  using lookupAll_catalog_all [OF assms] by blast+

lemma scheduledNow_eligible:
  "c \<in> set (scheduledNow arraySort st sem cs) \<Longrightarrow>
     c \<in> set cs \<and> isOffered c sem \<and> prereqsMet st c"
  using walkUnderCap_set [of 0 "eligibleCourses arraySort st sem cs"]
  by (auto simp: scheduledNow_def eligibleCourses_def set_arraySort)

lemma scheduledNow_distinct:
  "distinct (map course_id cs) \<Longrightarrow> distinct (map course_id (scheduledNow arraySort st sem cs))"
  unfolding scheduledNow_def eligibleCourses_def
  by (intro walkUnderCap_distinct) (simp add: distinct_map_arraySort distinct_map_filter)

lemma scheduledNow_cap:
  "sum_list (map credits (scheduledNow srt st sem cs)) \<le> MAX_CREDITS"
  using walkUnderCap_cap [of 0 "eligibleCourses srt st sem cs"]
  by (simp add: scheduledNow_def MAX_CREDITS_def)

subsection \<open>The invariant of the term loop\<close>

lemma scheduleSemester_planInv:
  assumes known: "set pool0 \<subseteq> dom (courseLookupOf catalog)"
    and inv: "planInv catalog pool0 state"
  shows "\<exists>state'. scheduleSemester arraySort catalog (courseLookupOf catalog) startYear yr sem state
            = Inr state' \<and> planInv catalog pool0 state' \<and>
            termLabels state' = termLabels state @ [(startYear + int yr, sem)]"
proof -
  obtain pool st sched where state: "state = (pool, st, sched)"
    by (cases state) auto
  let ?L = "courseLookupOf catalog"
  from inv state have d: "distinct (scheduledIds sched @ pool)"
    and u: "set (scheduledIds sched) \<union> set pool = set pool0"
    and ok: "\<forall>s\<in>set sched. slotOK ?L s"
    by (auto simp: planInv_def)
  from u known have "set pool \<subseteq> dom ?L" by blast
  then obtain cs where cs: "lookupAll ?L pool = Inr cs"
    using lookupAll_Inr by blast
  note cat = lookupAll_catalog [OF cs]
  let ?W = "scheduledNow arraySort st sem cs"
  let ?ids = "map course_id ?W"
  let ?slot = "\<lparr>year = startYear + int yr, semester = sem, courses = map slotEntry ?W,
                 slot_credits = sum_list (map credits ?W)\<rparr>"
  let ?state' = "(filter (\<lambda>i. i \<notin> set ?ids) pool,
                  fold (decrementDependents catalog) ?ids st, sched @ [?slot])"
  have step: "scheduleSemester arraySort catalog ?L startYear yr sem state = Inr ?state'"
    unfolding state by (rule scheduleSemester_eq [OF cs])
  have dpool: "distinct pool" using d by simp
  then have dids: "distinct ?ids"
    using scheduledNow_distinct [of cs st sem] cat(1) by simp
  have sub: "set ?ids \<subseteq> set pool"
  proof
    fix i assume "i \<in> set ?ids"
    then obtain c where "c \<in> set ?W" "i = course_id c" by auto
    then have "c \<in> set cs" using scheduledNow_eligible by blast
    then have "course_id c \<in> set (map course_id cs)" by simp
    then show "i \<in> set pool" using cat(1) \<open>i = course_id c\<close> by simp
  qed
  have ids': "scheduledIds (sched @ [?slot]) = scheduledIds sched @ ?ids"
    by (simp add: scheduledIds_snoc comp_def slotEntry_def)
  have d': "distinct (scheduledIds (sched @ [?slot]) @ filter (\<lambda>i. i \<notin> set ?ids) pool)"
    unfolding ids' using d dids sub by auto
  have u': "set (scheduledIds (sched @ [?slot])) \<union> set (filter (\<lambda>i. i \<notin> set ?ids) pool) = set pool0"
    unfolding ids' using u sub by auto
  have okslot: "slotOK ?L ?slot"
    unfolding slotOK_def
  proof (intro conjI ballI)
    fix e assume "e \<in> set (courses ?slot)"
    then obtain c where c: "c \<in> set ?W" "e = slotEntry c" by auto
    from c(1) have el: "c \<in> set cs" "isOffered c sem"
      using scheduledNow_eligible by blast+
    from el(2) obtain ss where "semesters_offered c = Some ss" "sem \<in> set ss"
      by (auto simp: isOffered_def split: option.splits)
    moreover have "?L (sc_id e) = Some c"
      using cat(3) [OF el(1)] c(2) by (simp add: slotEntry_def)
    ultimately show "\<exists>c ss. ?L (sc_id e) = Some c \<and> e = slotEntry c \<and>
          semesters_offered c = Some ss \<and> semester ?slot \<in> set ss"
      using c(2) by auto
  next
    show "slot_credits ?slot = sum_list (map sc_credits (courses ?slot))"
      by (simp add: comp_def slotEntry_def)
  next
    show "slot_credits ?slot \<le> MAX_CREDITS"
      using scheduledNow_cap [of arraySort st sem cs] by simp
  qed
  have "planInv catalog pool0 ?state'"
    unfolding planInv_def using d' u' ok okslot by simp
  moreover have "termLabels ?state' = termLabels state @ [(startYear + int yr, sem)]"
    by (simp add: termLabels_def state)
  ultimately show ?thesis using step by blast
qed

lemma planInv_initial:
  "planInv catalog (initialPool requirements (courseLookupOf catalog) completedCourses)
     (initialState requirements catalog completedCourses)"
  by (simp add: planInv_def initialState_def scheduledIds_def distinct_initialPool)

lemma initialPool_known:
  "set (initialPool requirements (courseLookupOf catalog) completedCourses)
     \<subseteq> dom (courseLookupOf catalog)"
  by (auto simp: set_initialPool)

lemma forEachE_append:
  assumes "P s"
    and "\<And>x s. P s \<Longrightarrow> \<exists>s'. f x s = Inr s' \<and> P s' \<and> g s' = g s @ h x"
  shows "\<exists>s'. forEachE f xs s = Inr s' \<and> P s' \<and> g s' = g s @ concat (map h xs)"
  using assms
proof (induction xs arbitrary: s)
  case Nil
  then show ?case by simp
next
  case (Cons x xs)
  from Cons.prems obtain s1 where s1: "f x s = Inr s1" "P s1" "g s1 = g s @ h x" by blast
  have "\<exists>s'. forEachE f xs s1 = Inr s' \<and> P s' \<and> g s' = g s1 @ concat (map h xs)"
    by (rule Cons.IH) (use s1 Cons.prems in auto)
  with s1 show ?case by auto
qed

lemma termLoop_planInv:
  assumes known: "set pool0 \<subseteq> dom (courseLookupOf catalog)"
    and inv: "planInv catalog pool0 state"
  shows "\<exists>state'. termLoop arraySort catalog (courseLookupOf catalog) startYear state = Inr state'
           \<and> planInv catalog pool0 state' \<and>
           termLabels state' = termLabels state @
             [(startYear, ''Fall''), (startYear, ''Spring''),
              (startYear + 1, ''Fall''), (startYear + 1, ''Spring''),
              (startYear + 2, ''Fall''), (startYear + 2, ''Spring''),
              (startYear + 3, ''Fall''), (startYear + 3, ''Spring'')]"
proof -
  let ?P = "planInv catalog pool0"
  let ?body = "scheduleSemester arraySort catalog (courseLookupOf catalog) startYear"
  have inner: "\<exists>s'. forEachE (?body yr) semesters s = Inr s' \<and> ?P s' \<and>
      termLabels s' = termLabels s @ concat (map (\<lambda>sem. [(startYear + int yr, sem)]) semesters)"
    if "?P s" for yr s
    using that scheduleSemester_planInv [OF known]
    by (rule forEachE_append [where P = "?P" and g = termLabels])
  have "\<exists>s'. forEachE (\<lambda>yr. forEachE (?body yr) semesters) [0, 1, 2, 3] state = Inr s' \<and> ?P s' \<and>
      termLabels s' = termLabels state @
        concat (map (\<lambda>yr. concat (map (\<lambda>sem. [(startYear + int yr, sem)]) semesters)) [0, 1, 2, 3])"
    using inv inner by (rule forEachE_append [where P = "?P" and g = termLabels])
  then show ?thesis
    by (simp add: termLoop_def semesters_def)
qed

lemma generatePlan_planInv:
  "\<exists>state. generatePlan requirements catalog completedCourses startYear = Inr (finalOutput state)
     \<and> planInv catalog (initialPool requirements (courseLookupOf catalog) completedCourses) state
     \<and> termLabels state =
         [(startYear, ''Fall''), (startYear, ''Spring''),
          (startYear + 1, ''Fall''), (startYear + 1, ''Spring''),
          (startYear + 2, ''Fall''), (startYear + 2, ''Spring''),
          (startYear + 3, ''Fall''), (startYear + 3, ''Spring'')]"
proof -
  from termLoop_planInv [OF initialPool_known planInv_initial]
  obtain state' where
    "termLoop arraySort catalog (courseLookupOf catalog) startYear
       (initialState requirements catalog completedCourses) = Inr state'"
    "planInv catalog (initialPool requirements (courseLookupOf catalog) completedCourses) state'"
    "termLabels state' = termLabels (initialState requirements catalog completedCourses) @
             [(startYear, ''Fall''), (startYear, ''Spring''),
              (startYear + 1, ''Fall''), (startYear + 1, ''Spring''),
              (startYear + 2, ''Fall''), (startYear + 2, ''Spring''),
              (startYear + 3, ''Fall''), (startYear + 3, ''Spring'')]"
    by blast
  then show ?thesis
    by (intro exI [of _ state']) (simp add: generatePlan_def generatePlanWith_def termLabels_def initialState_def)
qed

subsection \<open>Counting prerequisites\<close>

lemma listsPrereq_iff: "listsPrereq c i \<longleftrightarrow> i \<in> set (prereqsOf c)"
  by (simp add: listsPrereq_def prereqsOf_def split: option.splits)

lemma cnt_nonneg: "0 \<le> cnt D c"
proof -
  have "card (set (prereqsOf c) \<inter> D) \<le> card (set (prereqsOf c))"
    by (rule card_mono) auto
  also have "\<dots> \<le> length (prereqsOf c)"
    by (rule card_length)
  finally show ?thesis by (simp add: cnt_def)
qed

lemma cnt_zero_subset:
  assumes "cnt D c = 0"
  shows "set (prereqsOf c) \<subseteq> D"
proof -
  have a: "card (set (prereqsOf c) \<inter> D) \<le> card (set (prereqsOf c))"
    by (rule card_mono) auto
  have b: "card (set (prereqsOf c)) \<le> length (prereqsOf c)"
    by (rule card_length)
  from assms have "length (prereqsOf c) = card (set (prereqsOf c) \<inter> D)"
    by (simp add: cnt_def)
  with a b have "card (set (prereqsOf c) \<inter> D) = card (set (prereqsOf c))"
    by simp
  then have "set (prereqsOf c) \<inter> D = set (prereqsOf c)"
    by (intro card_subset_eq) auto
  then show ?thesis by blast
qed

lemma cnt_insert:
  assumes "i \<notin> D"
  shows "cnt (insert i D) c = (if i \<in> set (prereqsOf c) then cnt D c - 1 else cnt D c)"
proof (cases "i \<in> set (prereqsOf c)")
  case True
  then have "set (prereqsOf c) \<inter> insert i D = insert i (set (prereqsOf c) \<inter> D)"
    by auto
  moreover have "i \<notin> set (prereqsOf c) \<inter> D" using assms by simp
  ultimately have "card (set (prereqsOf c) \<inter> insert i D) = Suc (card (set (prereqsOf c) \<inter> D))"
    by simp
  with True show ?thesis by (simp add: cnt_def)
next
  case False
  then have "set (prereqsOf c) \<inter> insert i D = set (prereqsOf c) \<inter> D" by auto
  with False show ?thesis by (simp add: cnt_def)
qed

lemma decrementDependents_Nil: "decrementDependents [] i st = st"
  by (simp add: decrementDependents_def)

lemma decrementDependents_Cons:
  "decrementDependents (c # cs) i st = decrementDependents cs i (decrementIfDependent i c st)"
  by (simp add: decrementDependents_def)

lemma decrementDependents_snoc:
  "decrementDependents (cs @ [c]) i st = decrementIfDependent i c (decrementDependents cs i st)"
  by (simp add: decrementDependents_def)

lemma decrementDependents_apply:
  "distinct (map course_id cs) \<Longrightarrow>
     decrementDependents cs i st k =
       (if \<exists>c\<in>set cs. course_id c = k \<and> listsPrereq c i then Some (getMinus1 st k) else st k)"
proof (induction cs arbitrary: st)
  case Nil
  then show ?case by (simp add: decrementDependents_Nil)
next
  case (Cons c cs)
  let ?st1 = "decrementIfDependent i c st"
  have IH: "decrementDependents cs i ?st1 k =
       (if \<exists>c\<in>set cs. course_id c = k \<and> listsPrereq c i then Some (getMinus1 ?st1 k) else ?st1 k)"
    using Cons by simp
  show ?case
  proof (cases "course_id c = k")
    case True
    from Cons.prems have "course_id c \<notin> course_id ` set cs" by simp
    with True have "\<not> (\<exists>c'\<in>set cs. course_id c' = k \<and> listsPrereq c' i)"
      by (metis image_eqI)
    with IH True show ?thesis
      by (auto simp: decrementDependents_Cons decrementIfDependent_def decrement_def)
  next
    case False
    then have "?st1 k = st k" "getMinus1 ?st1 k = getMinus1 st k"
      by (auto simp: decrementIfDependent_def decrement_def getMinus1_def)
    with IH False show ?thesis
      by (auto simp: decrementDependents_Cons)
  qed
qed

lemma decrementDependents_catalog:
  assumes d: "distinct (map course_id catalog)" and c: "c \<in> set catalog"
  shows "decrementDependents catalog i st (course_id c) =
       (if listsPrereq c i then Some (getMinus1 st (course_id c)) else st (course_id c))"
proof -
  have "(\<exists>c'\<in>set catalog. course_id c' = course_id c \<and> listsPrereq c' i) \<longleftrightarrow> listsPrereq c i"
    using d c by (auto simp: distinct_map inj_on_def)
  then show ?thesis
    using decrementDependents_apply [OF d, of i st "course_id c"] by simp
qed

lemma subset_Un_chain: "A \<subseteq> B \<union> C \<Longrightarrow> B \<subseteq> D \<union> E \<Longrightarrow> A \<subseteq> D \<union> (E \<union> C)"
  by blast

lemma dom_decrementIfDependent:
  "dom (decrementIfDependent i c st) \<subseteq> dom st \<union> {course_id c}"
  by (simp add: decrementIfDependent_def decrement_def subset_insertI)

lemma dom_decrementDependents:
  "dom (decrementDependents cs i st) \<subseteq> dom st \<union> course_id ` set cs"
proof (induction cs arbitrary: st)
  case Nil
  then show ?case by (simp add: decrementDependents_Nil)
next
  case (Cons c cs)
  have "dom (decrementDependents cs i (decrementIfDependent i c st))
          \<subseteq> dom (decrementIfDependent i c st) \<union> course_id ` set cs"
    by (rule Cons.IH)
  then have "dom (decrementDependents cs i (decrementIfDependent i c st))
          \<subseteq> dom st \<union> ({course_id c} \<union> course_id ` set cs)"
    using dom_decrementIfDependent by (rule subset_Un_chain)
  then show ?case
    by (simp add: decrementDependents_Cons)
qed

lemma countersOK_decrementDependents:
  assumes d: "distinct (map course_id catalog)" and ok: "countersOK catalog D st"
    and i: "i \<notin> D"
  shows "countersOK catalog (insert i D) (decrementDependents catalog i st)"
  unfolding countersOK_def
proof (intro conjI ballI)
  show "dom (decrementDependents catalog i st) \<subseteq> course_id ` set catalog"
    using dom_decrementDependents [of catalog i st] ok by (auto simp: countersOK_def)
next
  fix c assume c: "c \<in> set catalog"
  then have st: "st (course_id c) = Some (Num (cnt D c))"
    using ok by (simp add: countersOK_def)
  show "decrementDependents catalog i st (course_id c) = Some (Num (cnt (insert i D) c))"
    using st by (simp add: decrementDependents_catalog [OF d c] cnt_insert [OF i]
        listsPrereq_iff getMinus1_def)
qed

lemma countersOK_fold:
  assumes d: "distinct (map course_id catalog)"
  shows "countersOK catalog D st \<Longrightarrow> distinct ids \<Longrightarrow> set ids \<inter> D = {} \<Longrightarrow>
     countersOK catalog (D \<union> set ids) (fold (decrementDependents catalog) ids st)"
proof (induction ids arbitrary: D st)
  case Nil
  then show ?case by simp
next
  case (Cons i ids)
  have i: "i \<notin> D" using Cons.prems by simp
  have "countersOK catalog (insert i D \<union> set ids)
          (fold (decrementDependents catalog) ids (decrementDependents catalog i st))"
    by (rule Cons.IH) (use Cons.prems countersOK_decrementDependents [OF d _ i] in auto)
  then show ?case by simp
qed

lemma countersOK_nonNegative:
  assumes "countersOK catalog D st"
  shows "nonNegative st"
  unfolding nonNegative_def
proof (intro allI impI)
  fix k v assume kv: "st k = Some v"
  then have "k \<in> course_id ` set catalog"
    using assms by (auto simp: countersOK_def)
  then obtain c where c: "c \<in> set catalog" "k = course_id c" by auto
  then have "st k = Some (Num (cnt D c))"
    using assms by (simp add: countersOK_def)
  with kv cnt_nonneg [of D c] show "\<exists>n. v = Num n \<and> 0 \<le> n" by auto
qed

subsection \<open>Initial counters\<close>

lemma fold_setInitialCount_other:
  "k \<notin> course_id ` set cs \<Longrightarrow> fold setInitialCount cs m k = m k"
  by (induction cs arbitrary: m) (auto simp: setInitialCount_def)

lemma fold_setInitialCount_dom:
  "dom (fold setInitialCount cs m) = dom m \<union> course_id ` set cs"
  by (induction cs arbitrary: m) (auto simp: setInitialCount_def)

lemma fold_setInitialCount_distinct:
  "distinct (map course_id cs) \<Longrightarrow> c \<in> set cs \<Longrightarrow>
     fold setInitialCount cs m (course_id c) = Some (Num (int (length (prereqsOf c))))"
proof (induction cs arbitrary: m)
  case Nil
  then show ?case by simp
next
  case (Cons a cs)
  show ?case
  proof (cases "c \<in> set cs")
    case True
    with Cons show ?thesis by simp
  next
    case False
    with Cons.prems have ca: "c = a" by simp
    have "course_id a \<notin> course_id ` set cs" using Cons.prems by simp
    then have "fold setInitialCount cs (setInitialCount a m) (course_id a)
                 = setInitialCount a m (course_id a)"
      by (rule fold_setInitialCount_other)
    moreover have "setInitialCount a m (course_id a) = Some (Num (int (length (prereqsOf a))))"
      by (simp add: setInitialCount_def)
    ultimately show ?thesis using ca by simp
  qed
qed

lemma countersOK_initial:
  "distinct (map course_id catalog) \<Longrightarrow> countersOK catalog {} (initializePrereqStatus catalog)"
  by (simp add: countersOK_def initializePrereqStatus_def fold_setInitialCount_dom
      fold_setInitialCount_distinct cnt_def)

subsection \<open>Pre-seeding\<close>

lemma countersOK_preseed:
  assumes d: "distinct (map course_id catalog)"
  shows "countersOK catalog D st \<Longrightarrow> distinct completedCourses \<Longrightarrow>
     set completedCourses \<inter> D = {} \<Longrightarrow>
     countersOK catalog (D \<union> {i \<in> set completedCourses. L i \<noteq> None})
       (preseed catalog L completedCourses st)"
proof (induction completedCourses arbitrary: D st)
  case Nil
  then show ?case by (simp add: preseed_def)
next
  case (Cons i rest)
  have i: "i \<notin> D" "i \<notin> set rest" using Cons.prems by auto
  show ?case
  proof (cases "L i")
    case None
    have "countersOK catalog (D \<union> {j \<in> set rest. L j \<noteq> None}) (preseed catalog L rest st)"
      by (rule Cons.IH) (use Cons.prems in auto)
    moreover have "D \<union> {j \<in> set (i # rest). L j \<noteq> None} = D \<union> {j \<in> set rest. L j \<noteq> None}"
      using None by auto
    ultimately show ?thesis using None by (simp add: preseed_def preseedOne_def)
  next
    case (Some c)
    have "countersOK catalog (insert i D \<union> {j \<in> set rest. L j \<noteq> None})
            (preseed catalog L rest (decrementDependents catalog i st))"
      by (rule Cons.IH)
        (use Cons.prems i countersOK_decrementDependents [OF d Cons.prems(1) i(1)] in auto)
    moreover have "D \<union> {j \<in> set (i # rest). L j \<noteq> None}
                     = insert i D \<union> {j \<in> set rest. L j \<noteq> None}"
      using Some by auto
    ultimately show ?thesis using Some by (simp add: preseed_def preseedOne_def)
  qed
qed

lemma counterInv_initial:
  assumes "distinct (map course_id catalog)" and "distinct completedCourses"
  shows "counterInv catalog completedCourses (initialState requirements catalog completedCourses)"
proof -
  have "countersOK catalog ({} \<union> {i \<in> set completedCourses. courseLookupOf catalog i \<noteq> None})
          (preseed catalog (courseLookupOf catalog) completedCourses (initializePrereqStatus catalog))"
    by (rule countersOK_preseed) (use assms countersOK_initial in auto)
  moreover have "set (initialPool requirements (courseLookupOf catalog) completedCourses)
      \<inter> set completedCourses = {}"
    by (auto simp: set_initialPool)
  ultimately show ?thesis
    by (simp add: counterInv_def initialState_def doneSet_def scheduledIds_def
        prerequisitesRespected_def)
qed

subsection \<open>One semester keeps the counters right\<close>

lemma prerequisitesRespected_snoc:
  "prerequisitesRespected L completedCourses (sched @ [s]) \<longleftrightarrow>
     prerequisitesRespected L completedCourses sched \<and>
     (\<forall>e\<in>set (courses s). entryPrereqsIn L completedCourses (scheduledIds sched) e)"
  by (auto simp: prerequisitesRespected_def lessThan_Suc nth_append)

lemma scheduleSemester_step:
  assumes known: "set pool \<subseteq> dom (courseLookupOf catalog)" and dp: "distinct pool"
  shows "\<exists>W.
    scheduleSemester arraySort catalog (courseLookupOf catalog) startYear yr sem (pool, st, sched)
       = Inr (filter (\<lambda>i. i \<notin> set (map course_id W)) pool,
              fold (decrementDependents catalog) (map course_id W) st,
              sched @ [\<lparr>year = startYear + int yr, semester = sem, courses = map slotEntry W,
                        slot_credits = sum_list (map credits W)\<rparr>])
    \<and> distinct (map course_id W)
    \<and> set (map course_id W) \<subseteq> set pool
    \<and> (\<forall>c\<in>set W. c \<in> set catalog \<and> courseLookupOf catalog (course_id c) = Some c \<and>
            isOffered c sem \<and> prereqsMet st c)
    \<and> sum_list (map credits W) \<le> MAX_CREDITS"
proof -
  let ?L = "courseLookupOf catalog"
  obtain cs where cs: "lookupAll ?L pool = Inr cs"
    using known lookupAll_Inr by blast
  note cat = lookupAll_catalog [OF cs]
  let ?W = "scheduledNow arraySort st sem cs"
  have 1: "scheduleSemester arraySort catalog ?L startYear yr sem (pool, st, sched)
       = Inr (filter (\<lambda>i. i \<notin> set (map course_id ?W)) pool,
              fold (decrementDependents catalog) (map course_id ?W) st,
              sched @ [\<lparr>year = startYear + int yr, semester = sem, courses = map slotEntry ?W,
                        slot_credits = sum_list (map credits ?W)\<rparr>])"
    by (rule scheduleSemester_eq [OF cs])
  have 2: "distinct (map course_id ?W)"
    using scheduledNow_distinct [of cs st sem] cat(1) dp by simp
  have in_cs: "c \<in> set cs \<and> isOffered c sem \<and> prereqsMet st c" if "c \<in> set ?W" for c
    using that by (rule scheduledNow_eligible)
  have 3: "set (map course_id ?W) \<subseteq> set pool"
  proof
    fix i assume "i \<in> set (map course_id ?W)"
    then obtain c where c: "c \<in> set ?W" "i = course_id c" by auto
    then have "course_id c \<in> set (map course_id cs)" using in_cs by simp
    then show "i \<in> set pool" using cat(1) c(2) by simp
  qed
  have 4: "\<forall>c\<in>set ?W. c \<in> set catalog \<and> ?L (course_id c) = Some c \<and> isOffered c sem \<and> prereqsMet st c"
    using in_cs cat(2) cat(3) by blast
  have 5: "sum_list (map credits ?W) \<le> MAX_CREDITS"
    by (rule scheduledNow_cap)
  show ?thesis
    by (rule exI [of _ ?W]) (intro conjI 1 2 3 4 5)
qed

lemma scheduleSemester_counterInv:
  assumes d: "distinct (map course_id catalog)"
    and known: "set pool0 \<subseteq> dom (courseLookupOf catalog)"
    and pinv: "planInv catalog pool0 state"
    and cinv: "counterInv catalog completedCourses state"
  shows "\<exists>state'. scheduleSemester arraySort catalog (courseLookupOf catalog) startYear yr sem state
            = Inr state' \<and> counterInv catalog completedCourses state'"
proof -
  obtain pool st sched where state: "state = (pool, st, sched)"
    by (cases state) auto
  let ?L = "courseLookupOf catalog"
  let ?D = "doneSet catalog completedCourses \<union> set (scheduledIds sched)"
  from pinv state have dist: "distinct (scheduledIds sched @ pool)"
    and u: "set (scheduledIds sched) \<union> set pool = set pool0"
    by (auto simp: planInv_def)
  from cinv state have ok: "countersOK catalog ?D st"
    and disj: "set pool \<inter> set completedCourses = {}"
    and resp: "prerequisitesRespected ?L completedCourses sched"
    by (auto simp: counterInv_def)
  have kp: "set pool \<subseteq> dom ?L" using u known by blast
  have dp: "distinct pool" using dist by simp
  from scheduleSemester_step [OF kp dp, of startYear yr sem st sched]
  obtain W where
    step: "scheduleSemester arraySort catalog ?L startYear yr sem (pool, st, sched)
       = Inr (filter (\<lambda>i. i \<notin> set (map course_id W)) pool,
              fold (decrementDependents catalog) (map course_id W) st,
              sched @ [\<lparr>year = startYear + int yr, semester = sem, courses = map slotEntry W,
                        slot_credits = sum_list (map credits W)\<rparr>])"
    and dW: "distinct (map course_id W)"
    and sub: "set (map course_id W) \<subseteq> set pool"
    and el: "\<forall>c\<in>set W. c \<in> set catalog \<and> ?L (course_id c) = Some c \<and>
            isOffered c sem \<and> prereqsMet st c"
    by (elim exE conjE)
  let ?ids = "map course_id W"
  let ?slot = "\<lparr>year = startYear + int yr, semester = sem, courses = map slotEntry W,
                        slot_credits = sum_list (map credits W)\<rparr>"
  have "doneSet catalog completedCourses \<subseteq> set completedCourses"
    by (auto simp: doneSet_def)
  then have fresh: "set ?ids \<inter> ?D = {}"
    using sub disj dist by auto
  have ids': "scheduledIds (sched @ [?slot]) = scheduledIds sched @ ?ids"
    by (simp add: scheduledIds_snoc comp_def slotEntry_def)
  have "countersOK catalog (?D \<union> set ?ids) (fold (decrementDependents catalog) ?ids st)"
    using ok dW fresh by (rule countersOK_fold [OF d])
  moreover have "?D \<union> set ?ids = doneSet catalog completedCourses \<union> set (scheduledIds (sched @ [?slot]))"
    unfolding ids' by auto
  ultimately have A: "countersOK catalog
      (doneSet catalog completedCourses \<union> set (scheduledIds (sched @ [?slot])))
      (fold (decrementDependents catalog) ?ids st)"
    by simp
  have B: "set (filter (\<lambda>i. i \<notin> set ?ids) pool) \<inter> set completedCourses = {}"
    using disj by auto
  have "entryPrereqsIn ?L completedCourses (scheduledIds sched) e" if "e \<in> set (courses ?slot)" for e
  proof -
    from that obtain c where c: "c \<in> set W" "e = slotEntry c" by auto
    from el c(1) have cc: "c \<in> set catalog" "?L (course_id c) = Some c" "prereqsMet st c"
      by blast+
    from cc(1) ok have "st (course_id c) = Some (Num (cnt ?D c))"
      by (simp add: countersOK_def)
    with cc(3) have "cnt ?D c = 0" by (simp add: prereqsMet_def)
    then have "set (prereqsOf c) \<subseteq> ?D" by (rule cnt_zero_subset)
    then have "\<forall>q\<in>set (prereqsOf c). q \<in> set completedCourses \<or> q \<in> set (scheduledIds sched)"
      by (auto simp: doneSet_def)
    then show ?thesis
      using cc(2) c(2) by (simp add: entryPrereqsIn_def slotEntry_def)
  qed
  with resp have C: "prerequisitesRespected ?L completedCourses (sched @ [?slot])"
    by (simp add: prerequisitesRespected_snoc)
  from A B C step show ?thesis
    unfolding state counterInv_def by simp
qed

lemma scheduleSemester_invariants:
  assumes d: "distinct (map course_id catalog)"
    and known: "set pool0 \<subseteq> dom (courseLookupOf catalog)"
    and p: "planInv catalog pool0 s"
    and c: "counterInv catalog completedCourses s"
  shows "\<exists>s'. scheduleSemester arraySort catalog (courseLookupOf catalog) startYear yr sem s = Inr s'
           \<and> planInv catalog pool0 s' \<and> counterInv catalog completedCourses s'"
proof -
  from scheduleSemester_planInv [OF known p] obtain s1 where
    s1: "scheduleSemester arraySort catalog (courseLookupOf catalog) startYear yr sem s = Inr s1"
      "planInv catalog pool0 s1"
    by blast
  from scheduleSemester_counterInv [OF d known p c] obtain s2 where
    s2: "scheduleSemester arraySort catalog (courseLookupOf catalog) startYear yr sem s = Inr s2"
      "counterInv catalog completedCourses s2"
    by blast
  from s1(1) s2(1) have "s1 = s2" by simp
  with s1 s2 show ?thesis by blast
qed

lemma termLoop_counterInv:
  assumes d: "distinct (map course_id catalog)"
    and known: "set pool0 \<subseteq> dom (courseLookupOf catalog)"
    and pinv: "planInv catalog pool0 state"
    and cinv: "counterInv catalog completedCourses state"
  shows "\<exists>state'. termLoop arraySort catalog (courseLookupOf catalog) startYear state = Inr state'
           \<and> planInv catalog pool0 state' \<and> counterInv catalog completedCourses state'"
proof -
  let ?P = "\<lambda>s. planInv catalog pool0 s \<and> counterInv catalog completedCourses s"
  have "\<exists>s'. scheduleSemester arraySort catalog (courseLookupOf catalog) startYear yr sem s = Inr s'
           \<and> ?P s'" if "?P s" for yr sem s
    using scheduleSemester_invariants [OF d known] that by blast
  moreover have "?P state" using pinv cinv by simp
  ultimately show ?thesis
    using termLoop_invariant [of ?P state arraySort catalog "courseLookupOf catalog" startYear]
    by blast
qed

lemma generatePlan_counterInv:
  assumes "distinct (map course_id catalog)" and "distinct completedCourses"
  shows "\<exists>state. generatePlan requirements catalog completedCourses startYear = Inr (finalOutput state)
     \<and> counterInv catalog completedCourses state"
proof -
  from termLoop_counterInv [OF assms(1) initialPool_known planInv_initial counterInv_initial [OF assms]]
  obtain state' where
    "termLoop arraySort catalog (courseLookupOf catalog) startYear
       (initialState requirements catalog completedCourses) = Inr state'"
    "counterInv catalog completedCourses state'"
    by blast
  then show ?thesis
    by (intro exI [of _ state']) (simp add: generatePlan_def generatePlanWith_def)
qed

lemmas planner_defs =
  generatePlan_def generatePlanWith_def termLoop_def initialState_def initialPool_def
  requiredCourseIDs_def addOptionsPool_def addIfKnown_def courseLookupOf_def setEntry_def
  setAdd_def setDelete_def preseed_def preseedOne_def initializePrereqStatus_def
  setInitialCount_def prereqsOf_def semesters_def scheduleSemester_def eligibleCourses_def
  isOffered_def prereqsMet_def arraySort_def scheduleCourses_def scheduleOne_def slotEntry_def
  emptySlot_def MAX_CREDITS_def updateState_def updateOne_def decrementDependents_def
  decrementIfDependent_def decrement_def listsPrereq_def finalOutput_def getMinus1_def
  offeredCount_def digitChar_def

subsection \<open>The example run\<close>

lemma showNat_digit: "n < 10 \<Longrightarrow> showNat n = [digitChar n]"
  by (simp add: showNat.simps)

lemma examplePlan_run:
  "generatePlan exampleRequirements exampleCatalog [''MATH1''] 2024 = Inr examplePlan"
  by (simp add: planner_defs exampleCatalog_def exampleRequirements_def examplePlan_def
      showNat_digit)

subsection \<open>The returned plan\<close>

lemma finalOutput_fields:
  "schedule (finalOutput (pool, st, sched)) = sched"
  "unmetIds (finalOutput (pool, st, sched)) = pool"
  by (simp_all add: finalOutput_def unmetIds_def comp_def)

lemma set_resolvedRequired:
  "set (resolvedRequired requirements catalog completedCourses) =
     set (initialPool requirements (courseLookupOf catalog) completedCourses)"
proof -
  have "courseLookupOf catalog i \<noteq> None \<longleftrightarrow> i \<in> course_id ` set catalog" for i
    using courseLookupOf_dom [of catalog] by (auto simp: dom_def)
  then show ?thesis
    by (auto simp: resolvedRequired_def set_initialPool)
qed

lemma generatePlan_facts:
  "\<exists>pool st sched.
     generatePlan requirements catalog completedCourses startYear = Inr (finalOutput (pool, st, sched))
     \<and> planInv catalog (initialPool requirements (courseLookupOf catalog) completedCourses) (pool, st, sched)
     \<and> map (\<lambda>s. (year s, semester s)) sched =
         [(startYear, ''Fall''), (startYear, ''Spring''),
          (startYear + 1, ''Fall''), (startYear + 1, ''Spring''),
          (startYear + 2, ''Fall''), (startYear + 2, ''Spring''),
          (startYear + 3, ''Fall''), (startYear + 3, ''Spring'')]"
proof -
  from generatePlan_planInv [of requirements catalog completedCourses startYear]
  obtain state where s:
    "generatePlan requirements catalog completedCourses startYear = Inr (finalOutput state)"
    "planInv catalog (initialPool requirements (courseLookupOf catalog) completedCourses) state"
    "termLabels state =
         [(startYear, ''Fall''), (startYear, ''Spring''),
          (startYear + 1, ''Fall''), (startYear + 1, ''Spring''),
          (startYear + 2, ''Fall''), (startYear + 2, ''Spring''),
          (startYear + 3, ''Fall''), (startYear + 3, ''Spring'')]"
    by (elim exE conjE)
  obtain pool st sched where state: "state = (pool, st, sched)" by (cases state) auto
  have l: "termLabels state = map (\<lambda>s. (year s, semester s)) sched"
    by (simp only: state termLabels_def prod.case)
  from s(1) s(2) s(3) [unfolded l] show ?thesis
    unfolding state by (intro exI conjI)
qed

lemma count_list_distinct: "distinct xs \<Longrightarrow> x \<in> set xs \<Longrightarrow> count_list xs x = 1"
  by (induction xs) (auto simp: count_list_0_iff)

text \<open>
  Claim C3. Every identifier of the resolved required set (the entries of the requirements'
  \<^verbatim>\<open>options_pool\<close> lists that exist in the catalog and are not among \<^verbatim>\<open>completedCourses\<close>)
  occurs exactly once in the returned plan: the number of its occurrences in the schedule
  slots plus the number of its occurrences in \<^verbatim>\<open>unmet_requirements\<close> is one, so it
  is in exactly one slot or exactly one unmet entry, never both and never neither.
\<close>

theorem required_scheduled_xor_unmet:
  assumes "i \<in> set (resolvedRequired requirements catalog completedCourses)"
  shows "\<exists>p. generatePlan requirements catalog completedCourses startYear = Inr p \<and>
           count_list (scheduledIds (schedule p)) i + count_list (unmetIds p) i = 1"
proof -
  from generatePlan_facts [of requirements catalog completedCourses startYear]
  obtain pool st sched where
    run: "generatePlan requirements catalog completedCourses startYear = Inr (finalOutput (pool, st, sched))"
    and inv: "planInv catalog (initialPool requirements (courseLookupOf catalog) completedCourses) (pool, st, sched)"
    by (elim exE conjE)
  from inv have d: "distinct (scheduledIds sched @ pool)"
    and u: "set (scheduledIds sched) \<union> set pool
              = set (initialPool requirements (courseLookupOf catalog) completedCourses)"
    by (simp_all add: planInv_def)
  from assms u have "i \<in> set (scheduledIds sched @ pool)"
    by (simp add: set_resolvedRequired)
  with d have "count_list (scheduledIds sched @ pool) i = 1"
    by (rule count_list_distinct)
  then have "count_list (scheduledIds sched) i + count_list pool i = 1"
    by simp
  with run show ?thesis
    by (simp add: finalOutput_fields)
qed

theorem required_scheduled_xor_unmet_witness:
  "''CS101'' \<in> set (resolvedRequired exampleRequirements exampleCatalog [''MATH1'']) \<and>
   ''CS900'' \<in> set (resolvedRequired exampleRequirements exampleCatalog [''MATH1'']) \<and>
   count_list (scheduledIds (schedule examplePlan)) ''CS101'' + count_list (unmetIds examplePlan) ''CS101'' = 1 \<and>
   count_list (scheduledIds (schedule examplePlan)) ''CS900'' + count_list (unmetIds examplePlan) ''CS900'' = 1"
proof -
  have a: "''CS101'' \<in> set (resolvedRequired exampleRequirements exampleCatalog [''MATH1''])"
    and b: "''CS900'' \<in> set (resolvedRequired exampleRequirements exampleCatalog [''MATH1''])"
    by (simp_all add: resolvedRequired_def exampleRequirements_def exampleCatalog_def poolOf_def)
  from required_scheduled_xor_unmet [OF a, of 2024] required_scheduled_xor_unmet [OF b, of 2024] a b
  show ?thesis
    by (simp add: examplePlan_run)
qed

lemma slotOK_offered: "slotOK L s \<Longrightarrow> offeredWhenScheduled L s"
  by (fastforce simp: slotOK_def offeredWhenScheduled_def)

lemma slotOK_credits:
  "slotOK L s \<Longrightarrow>
     sum_list (map sc_credits (courses s)) = slot_credits s \<and> slot_credits s \<le> MAX_CREDITS"
  by (simp add: slotOK_def)

text \<open>
  Claim C4. When every catalog course has positive credits, the credits of the courses of
  each slot of the returned plan add up to the slot's stored \<^verbatim>\<open>credits\<close> field, and that
  total does not exceed \<^verbatim>\<open>MAX_CREDITS\<close>, which is 16.
\<close>

theorem slot_credits_within_cap:
  assumes "\<forall>c\<in>set catalog. 0 < credits c"
  shows "\<exists>p. generatePlan requirements catalog completedCourses startYear = Inr p \<and>
           (\<forall>s\<in>set (schedule p).
              sum_list (map sc_credits (courses s)) = slot_credits s \<and>
              slot_credits s \<le> MAX_CREDITS) \<and> MAX_CREDITS = 16"
proof -
  from generatePlan_facts [of requirements catalog completedCourses startYear]
  obtain pool st sched where
    run: "generatePlan requirements catalog completedCourses startYear = Inr (finalOutput (pool, st, sched))"
    and inv: "planInv catalog (initialPool requirements (courseLookupOf catalog) completedCourses) (pool, st, sched)"
    by (elim exE conjE)
  from inv have "\<forall>s\<in>set sched. slotOK (courseLookupOf catalog) s"
    by (simp add: planInv_def)
  then have "\<forall>s\<in>set sched. sum_list (map sc_credits (courses s)) = slot_credits s \<and>
              slot_credits s \<le> MAX_CREDITS"
    using slotOK_credits by blast
  with run show ?thesis
    by (simp add: finalOutput_fields MAX_CREDITS_def)
qed

text \<open>
  Claim C5. No course identifier occurs twice in the returned plan, neither in two slots nor
  twice in one slot, and every scheduled course lists its slot's term label in its
  \<^verbatim>\<open>semesters_offered\<close>.
\<close>

theorem scheduled_once_and_when_offered:
  "\<exists>p. generatePlan requirements catalog completedCourses startYear = Inr p \<and>
       distinct (scheduledIds (schedule p)) \<and>
       (\<forall>s\<in>set (schedule p). offeredWhenScheduled (courseLookupOf catalog) s)"
proof -
  from generatePlan_facts [of requirements catalog completedCourses startYear]
  obtain pool st sched where
    run: "generatePlan requirements catalog completedCourses startYear = Inr (finalOutput (pool, st, sched))"
    and inv: "planInv catalog (initialPool requirements (courseLookupOf catalog) completedCourses) (pool, st, sched)"
    by (elim exE conjE)
  from inv have "distinct (scheduledIds sched)"
    and "\<forall>s\<in>set sched. slotOK (courseLookupOf catalog) s"
    by (simp_all add: planInv_def)
  with run show ?thesis
    by (simp add: finalOutput_fields slotOK_offered)
qed


text \<open>
  Claim C10. \<open>generatePlan\<close> returns a plan on every input, whatever fields are absent and
  whatever identifiers are unknown to the catalog: no lookup of the term loop fails. Every
  scheduled identifier and every unmet identifier exists in the catalog, and a scheduled
  course always has a \<^verbatim>\<open>semesters_offered\<close> field.
\<close>

theorem generatePlan_total:
  "\<exists>p. generatePlan requirements catalog completedCourses startYear = Inr p \<and>
       (\<forall>i\<in>set (scheduledIds (schedule p) @ unmetIds p). i \<in> course_id ` set catalog) \<and>
       (\<forall>s\<in>set (schedule p). \<forall>e\<in>set (courses s). entryInCatalog catalog e)"
proof -
  let ?L = "courseLookupOf catalog"
  let ?pool0 = "initialPool requirements ?L completedCourses"
  from generatePlan_facts [of requirements catalog completedCourses startYear]
  obtain pool st sched where
    run: "generatePlan requirements catalog completedCourses startYear = Inr (finalOutput (pool, st, sched))"
    and inv: "planInv catalog ?pool0 (pool, st, sched)"
    by (elim exE conjE)
  from inv have u: "set (scheduledIds sched) \<union> set pool = set ?pool0"
    and ok: "\<forall>s\<in>set sched. slotOK ?L s"
    by (simp_all add: planInv_def)
  have "set ?pool0 \<subseteq> course_id ` set catalog"
    using initialPool_known [of requirements catalog completedCourses]
    by (simp add: courseLookupOf_dom)
  with u have A: "\<forall>i\<in>set (scheduledIds sched @ pool). i \<in> course_id ` set catalog"
    by auto
  have B: "entryInCatalog catalog e" if "s \<in> set sched" "e \<in> set (courses s)" for s e
  proof -
    from ok that obtain c ss where "?L (sc_id e) = Some c" "semesters_offered c = Some ss"
      unfolding slotOK_def by blast
    moreover from this have "c \<in> set catalog"
      using courseLookupOf_Some by blast
    ultimately show ?thesis by (simp add: entryInCatalog_def)
  qed
  from run A B show ?thesis
    by (simp add: finalOutput_fields)
qed

text \<open>
  Where no identifier repeats, prerequisites are respected: if the catalog has no two rows
  with the same \<^verbatim>\<open>course_id\<close> and \<^verbatim>\<open>completedCourses\<close> lists no identifier twice, every
  prerequisite of a scheduled course is a completed course or is scheduled in a strictly
  earlier slot.
\<close>

theorem prerequisites_before_scheduling:
  assumes "distinct (map course_id catalog)" and "distinct completedCourses"
  shows "\<exists>p. generatePlan requirements catalog completedCourses startYear = Inr p \<and>
           prerequisitesRespected (courseLookupOf catalog) completedCourses (schedule p)"
proof -
  from generatePlan_counterInv [OF assms, of requirements startYear]
  obtain state where
    run: "generatePlan requirements catalog completedCourses startYear = Inr (finalOutput state)"
    and inv: "counterInv catalog completedCourses state"
    by (elim exE conjE)
  obtain pool st sched where state: "state = (pool, st, sched)" by (cases state) auto
  from inv have "prerequisitesRespected (courseLookupOf catalog) completedCourses sched"
    by (simp add: state counterInv_def)
  with run show ?thesis
    by (simp add: state finalOutput_fields)
qed

subsection \<open>A completed course listed twice\<close>

lemma repeatPlan_run:
  "generatePlan repeatRequirements repeatCatalog [''MATH1'', ''MATH1''] 2024 = Inr repeatPlan"
  by (simp add: planner_defs repeatCatalog_def repeatRequirements_def repeatPlan_def
      showNat_digit)

text \<open>
  Claim C2. A course is scheduled only if each of its prerequisites was completed or was
  scheduled in a strictly earlier slot. The code does not keep this on an input that lists a
  completed course twice: \<^verbatim>\<open>MATH2\<close> requires \<^verbatim>\<open>MATH1\<close> and \<^verbatim>\<open>PHYS1\<close>, \<^verbatim>\<open>completedCourses\<close> is
  \<^verbatim>\<open>['MATH1', 'MATH1']\<close>, and \<^verbatim>\<open>MATH2\<close> is scheduled in the first slot although \<^verbatim>\<open>PHYS1\<close> is
  neither completed nor scheduled anywhere.
\<close>

theorem prerequisite_skipped_by_repeated_completion:
  "generatePlan repeatRequirements repeatCatalog [''MATH1'', ''MATH1''] 2024 = Inr repeatPlan \<and>
   map sc_id (courses (schedule repeatPlan ! 0)) = [''MATH2''] \<and>
   map_option prereqsOf (courseLookupOf repeatCatalog ''MATH2'') = Some [''MATH1'', ''PHYS1''] \<and>
   ''PHYS1'' \<notin> set [''MATH1'', ''MATH1''] \<and>
   ''PHYS1'' \<notin> set (scheduledIds (schedule repeatPlan))"
proof -
  have "map sc_id (courses (schedule repeatPlan ! 0)) = [''MATH2'']"
    and "''PHYS1'' \<notin> set (scheduledIds (schedule repeatPlan))"
    by (simp_all add: repeatPlan_def scheduledIds_def)
  moreover have "map_option prereqsOf (courseLookupOf repeatCatalog ''MATH2'')
                   = Some [''MATH1'', ''PHYS1'']"
    by (simp add: courseLookupOf_def setEntry_def repeatCatalog_def prereqsOf_def)
  ultimately show ?thesis
    using repeatPlan_run by simp
qed

lemma prerequisites_not_respected:
  "\<not> prerequisitesRespected (courseLookupOf repeatCatalog) [''MATH1'', ''MATH1'']
       (schedule repeatPlan)"
proof
  assume H: "prerequisitesRespected (courseLookupOf repeatCatalog) [''MATH1'', ''MATH1'']
     (schedule repeatPlan)"
  have len: "0 \<in> {..<length (schedule repeatPlan)}"
    by (simp add: repeatPlan_def)
  have mem: "\<lparr>sc_id = ''MATH2'', sc_name = ''Calculus II'', sc_credits = 4\<rparr>
               \<in> set (courses (schedule repeatPlan ! 0))"
    by (simp add: repeatPlan_def)
  from H [unfolded prerequisitesRespected_def, rule_format, OF len mem]
  show False
    by (simp add: entryPrereqsIn_def courseLookupOf_def setEntry_def
        repeatCatalog_def prereqsOf_def scheduledIds_def)
qed

subsection \<open>Instances on the example run\<close>

theorem prerequisites_before_scheduling_witness:
  "distinct (map course_id exampleCatalog) \<and> distinct [''MATH1''] \<and>
   prerequisitesRespected (courseLookupOf exampleCatalog) [''MATH1''] (schedule examplePlan) \<and>
   scheduledIds (schedule examplePlan) = [''CS101'', ''CS201'']"
proof -
  have a: "distinct (map course_id exampleCatalog)"
    by (simp add: exampleCatalog_def)
  have b: "distinct [''MATH1'']" by simp
  have c: "scheduledIds (schedule examplePlan) = [''CS101'', ''CS201'']"
    by (simp add: examplePlan_def scheduledIds_def)
  from prerequisites_before_scheduling [OF a b, of exampleRequirements 2024] a b c
  show ?thesis
    by (simp add: examplePlan_run)
qed

theorem slot_credits_within_cap_witness:
  "list_all (\<lambda>c. 0 < credits c) exampleCatalog \<and>
   list_all (\<lambda>s. sum_list (map sc_credits (courses s)) = slot_credits s \<and>
                 slot_credits s \<le> MAX_CREDITS) (schedule examplePlan) \<and>
   map slot_credits (schedule examplePlan) = [4, 4, 0, 0, 0, 0, 0, 0]"
proof -
  have a: "\<forall>c\<in>set exampleCatalog. 0 < credits c"
    by (simp add: exampleCatalog_def)
  have b: "map slot_credits (schedule examplePlan) = [4, 4, 0, 0, 0, 0, 0, 0]"
    by (simp add: examplePlan_def)
  from slot_credits_within_cap [OF a, of exampleRequirements "[''MATH1'']" 2024]
  have main: "\<forall>s\<in>set (schedule examplePlan).
      sum_list (map sc_credits (courses s)) = slot_credits s \<and> slot_credits s \<le> MAX_CREDITS"
    by (simp add: examplePlan_run)
  from a main b show ?thesis
    by (simp only: list_all_iff simp_thms)
qed

theorem scheduled_once_and_when_offered_witness:
  "distinct (scheduledIds (schedule examplePlan)) \<and>
   list_all (offeredWhenScheduled (courseLookupOf exampleCatalog)) (schedule examplePlan) \<and>
   scheduledIds (schedule examplePlan) = [''CS101'', ''CS201'']"
proof -
  have c: "scheduledIds (schedule examplePlan) = [''CS101'', ''CS201'']"
    by (simp add: examplePlan_def scheduledIds_def)
  from scheduled_once_and_when_offered [of exampleRequirements exampleCatalog "[''MATH1'']" 2024]
  have main: "distinct (scheduledIds (schedule examplePlan)) \<and>
      (\<forall>s\<in>set (schedule examplePlan). offeredWhenScheduled (courseLookupOf exampleCatalog) s)"
    by (simp add: examplePlan_run)
  have "list_all (offeredWhenScheduled (courseLookupOf exampleCatalog)) (schedule examplePlan)"
    using conjunct2 [OF main] by (simp only: list_all_iff)
  with conjunct1 [OF main] c show ?thesis
    by (intro conjI)
qed

theorem generatePlan_total_witness:
  "generatePlan exampleRequirements exampleCatalog [''MATH1''] 2024 = Inr examplePlan \<and>
   list_all (\<lambda>i. i \<in> course_id ` set exampleCatalog)
     (scheduledIds (schedule examplePlan) @ unmetIds examplePlan) \<and>
   list_all (\<lambda>s. list_all (entryInCatalog exampleCatalog) (courses s)) (schedule examplePlan) \<and>
   scheduledIds (schedule examplePlan) @ unmetIds examplePlan
     = [''CS101'', ''CS201'', ''CS900'', ''CS300'']"
proof -
  have c: "scheduledIds (schedule examplePlan) @ unmetIds examplePlan
     = [''CS101'', ''CS201'', ''CS900'', ''CS300'']"
    by (simp add: examplePlan_def scheduledIds_def unmetIds_def)
  from generatePlan_total [of exampleRequirements exampleCatalog "[''MATH1'']" 2024]
  have main: "(\<forall>i\<in>set (scheduledIds (schedule examplePlan) @ unmetIds examplePlan).
       i \<in> course_id ` set exampleCatalog) \<and>
   (\<forall>s\<in>set (schedule examplePlan). \<forall>e\<in>set (courses s). entryInCatalog exampleCatalog e)"
    by (simp add: examplePlan_run)
  have "list_all (\<lambda>i. i \<in> course_id ` set exampleCatalog)
          (scheduledIds (schedule examplePlan) @ unmetIds examplePlan)"
    using conjunct1 [OF main] by (simp only: list_all_iff)
  moreover have "list_all (\<lambda>s. list_all (entryInCatalog exampleCatalog) (courses s))
          (schedule examplePlan)"
    using conjunct2 [OF main] by (simp only: list_all_iff)
  ultimately show ?thesis
    using examplePlan_run c by (intro conjI)
qed

subsection \<open>The trace ends in the state the loops compute\<close>

lemma last_foldTrace:
  assumes "\<And>x s. last (s # tr x s) = f x s"
  shows "last (s # foldTrace f tr xs s) = fold f xs s"
proof (induction xs arbitrary: s)
  case Nil
  then show ?case by simp
next
  case (Cons x xs)
  have "last (s # tr x s @ foldTrace f tr xs (f x s)) = last (f x s # foldTrace f tr xs (f x s))"
    using assms [of s x] by (cases "tr x s"; cases "foldTrace f tr xs (f x s)") auto
  with Cons.IH [of "f x s"] show ?case by simp
qed

lemma last_decrementDependentsTrace:
  "last (st # decrementDependentsTrace catalog i st) = decrementDependents catalog i st"
  unfolding decrementDependentsTrace_def decrementDependents_def
  by (rule last_foldTrace) (simp add: decrementTrace_def decrementIfDependent_def)

lemma last_preseedTrace:
  "last (st # preseedTrace catalog L completedCourses st) = preseed catalog L completedCourses st"
  unfolding preseedTrace_def preseed_def
proof (rule last_foldTrace)
  fix x s
  show "last (s # preseedOneTrace catalog L x s) = preseedOne catalog L x s"
  proof (cases "L x")
    case None
    then show ?thesis by (simp add: preseedOneTrace_def preseedOne_def)
  next
    case (Some c)
    then show ?thesis
      by (simp add: preseedOneTrace_def preseedOne_def last_decrementDependentsTrace
          del: last.simps)
  qed
qed

lemma last_updateStateTrace:
  "last (st # updateStateTrace catalog ids st) = fold (decrementDependents catalog) ids st"
  unfolding updateStateTrace_def
  by (rule last_foldTrace) (rule last_decrementDependentsTrace)

lemma last_initializeTrace:
  "last (Map.empty # initializeTrace catalog) = initializePrereqStatus catalog"
  unfolding initializeTrace_def initializePrereqStatus_def
  by (rule last_foldTrace) simp

lemma scheduledThisSemester_eq:
  "scheduledThisSemester srt st sem cs = map course_id (scheduledNow srt st sem cs)"
  by (simp add: scheduledThisSemester_def scheduleCourses_walk scheduledNow_def emptySlot_def)

lemma last_semesterTrace:
  assumes "scheduleSemester srt catalog L startYear yr sem (pool, st, sched) = Inr (pool', st', sched')"
  shows "last (st # semesterTrace srt catalog L sem (pool, st, sched)) = st'"
proof -
  from assms obtain cs where cs: "lookupAll L pool = Inr cs"
    by (auto simp: scheduleSemester_def split: sum.splits)
  from assms have "st' = fold (decrementDependents catalog)
      (map course_id (scheduledNow srt st sem cs)) st"
    unfolding scheduleSemester_eq [OF cs] by simp
  then show ?thesis
    by (simp add: semesterTrace_def cs last_updateStateTrace scheduledThisSemester_eq
        del: last.simps)
qed

subsection \<open>Every map of the trace holds non-negative counters\<close>

lemma foldTrace_mem:
  "t \<in> set (foldTrace f tr xs s) \<Longrightarrow>
     \<exists>ys x zs. xs = ys @ x # zs \<and> t \<in> set (tr x (fold f ys s))"
proof (induction xs arbitrary: s)
  case Nil
  then show ?case by simp
next
  case (Cons x xs)
  show ?case
  proof (cases "t \<in> set (tr x s)")
    case True
    then have "x # xs = [] @ x # xs \<and> t \<in> set (tr x (fold f [] s))" by simp
    then show ?thesis by blast
  next
    case False
    with Cons.prems have "t \<in> set (foldTrace f tr xs (f x s))" by simp
    from Cons.IH [OF this] obtain ys y zs where
      "xs = ys @ y # zs" "t \<in> set (tr y (fold f ys (f x s)))" by blast
    then have "x # xs = (x # ys) @ y # zs \<and> t \<in> set (tr y (fold f (x # ys) s))" by simp
    then show ?thesis by blast
  qed
qed

lemma foldTrace_all:
  assumes "P s"
    and "\<And>x s. P s \<Longrightarrow> P (f x s)"
    and "\<And>x s t. P s \<Longrightarrow> t \<in> set (tr x s) \<Longrightarrow> Q t"
  shows "\<forall>t\<in>set (foldTrace f tr xs s). Q t"
  using assms(1)
proof (induction xs arbitrary: s)
  case Nil
  then show ?case by simp
next
  case (Cons x xs)
  have "\<forall>t\<in>set (tr x s). Q t" using assms(3) Cons.prems by blast
  moreover have "\<forall>t\<in>set (foldTrace f tr xs (f x s)). Q t"
    by (rule Cons.IH) (rule assms(2) [OF Cons.prems])
  ultimately show ?case by (simp add: ball_Un)
qed

lemma forEachETrace_all:
  assumes "P s"
    and "\<And>x s. P s \<Longrightarrow> \<exists>s'. f x s = Inr s' \<and> P s'"
    and "\<And>x s t. P s \<Longrightarrow> t \<in> set (tr x s) \<Longrightarrow> Q t"
  shows "\<forall>t\<in>set (forEachETrace f tr xs s). Q t"
  using assms(1)
proof (induction xs arbitrary: s)
  case Nil
  then show ?case by simp
next
  case (Cons x xs)
  from assms(2) [OF Cons.prems] obtain s1 where s1: "f x s = Inr s1" "P s1" by blast
  have "\<forall>t\<in>set (tr x s). Q t" using assms(3) Cons.prems by blast
  moreover have "\<forall>t\<in>set (forEachETrace f tr xs s1). Q t"
    by (rule Cons.IH) (rule s1(2))
  ultimately show ?case using s1(1) by (simp add: ball_Un)
qed

lemma nonNegative_setInitialCount: "nonNegative st \<Longrightarrow> nonNegative (setInitialCount c st)"
  by (simp add: nonNegative_def setInitialCount_def)

lemma nonNegative_empty: "nonNegative Map.empty"
  by (simp add: nonNegative_def)

lemma initializeTrace_nonNegative: "\<forall>t\<in>set (initializeTrace catalog). nonNegative t"
  unfolding initializeTrace_def
  by (rule foldTrace_all [where P = nonNegative])
    (simp_all add: nonNegative_empty nonNegative_setInitialCount)

lemma decrementDependentsTrace_mem:
  assumes "t \<in> set (decrementDependentsTrace catalog i st)"
  shows "\<exists>pre c post. catalog = pre @ c # post \<and> listsPrereq c i \<and>
           t = decrementDependents (pre @ [c]) i st"
proof -
  from foldTrace_mem [OF assms [unfolded decrementDependentsTrace_def]]
  obtain pre c post where split: "catalog = pre @ c # post"
    and t: "t \<in> set (decrementTrace i c (fold (decrementIfDependent i) pre st))"
    by blast
  from t have l: "listsPrereq c i"
    and "t = decrement c (fold (decrementIfDependent i) pre st)"
    by (auto simp: decrementTrace_def split: if_splits)
  then have "t = decrementDependents (pre @ [c]) i st"
    by (simp add: decrementDependents_def decrementIfDependent_def)
  with split l show ?thesis by blast
qed

lemma nonNegative_partial_decrement:
  assumes d: "distinct (map course_id catalog)" and ok: "countersOK catalog D st"
    and i: "i \<notin> D" and split: "catalog = pre @ post"
  shows "nonNegative (decrementDependents pre i st)"
  unfolding nonNegative_def
proof (intro allI impI)
  fix k v assume kv: "decrementDependents pre i st k = Some v"
  have dp: "distinct (map course_id pre)" using d split by simp
  note app = decrementDependents_apply [OF dp, of i st k]
  show "\<exists>n. v = Num n \<and> 0 \<le> n"
  proof (cases "\<exists>c\<in>set pre. course_id c = k \<and> listsPrereq c i")
    case True
    then obtain c where c: "c \<in> set pre" "course_id c = k" "listsPrereq c i" by blast
    then have "c \<in> set catalog" using split by simp
    then have "st k = Some (Num (cnt D c))"
      using ok c(2) by (auto simp: countersOK_def)
    then have "getMinus1 st k = Num (cnt D c - 1)"
      by (simp add: getMinus1_def)
    moreover have "cnt (insert i D) c = cnt D c - 1"
      using c(3) by (simp add: cnt_insert [OF i] listsPrereq_iff)
    ultimately have "getMinus1 st k = Num (cnt (insert i D) c)" by simp
    with True app kv have "v = Num (cnt (insert i D) c)" by simp
    then show ?thesis using cnt_nonneg [of "insert i D" c] by blast
  next
    case False
    with app kv have "st k = Some v" by simp
    then show ?thesis
      using countersOK_nonNegative [OF ok] by (simp add: nonNegative_def)
  qed
qed

lemma decrementDependentsTrace_nonNegative:
  assumes d: "distinct (map course_id catalog)" and ok: "countersOK catalog D st"
    and i: "i \<notin> D"
  shows "\<forall>t\<in>set (decrementDependentsTrace catalog i st). nonNegative t"
proof
  fix t assume "t \<in> set (decrementDependentsTrace catalog i st)"
  from decrementDependentsTrace_mem [OF this] obtain pre c post where
    split: "catalog = pre @ c # post" and t: "t = decrementDependents (pre @ [c]) i st"
    by blast
  from split have "catalog = (pre @ [c]) @ post" by simp
  from nonNegative_partial_decrement [OF d ok i this] t show "nonNegative t" by simp
qed

lemma preseedTrace_Cons:
  "preseedTrace catalog L (i # rest) st =
     preseedOneTrace catalog L i st @ preseedTrace catalog L rest (preseedOne catalog L i st)"
  by (simp add: preseedTrace_def)

lemma preseed_Cons:
  "preseed catalog L (i # rest) st = preseed catalog L rest (preseedOne catalog L i st)"
  by (simp add: preseed_def)

lemma preseedTrace_nonNegative:
  assumes d: "distinct (map course_id catalog)"
  shows "countersOK catalog D st \<Longrightarrow> distinct completedCourses \<Longrightarrow>
     set completedCourses \<inter> D = {} \<Longrightarrow>
     \<forall>t\<in>set (preseedTrace catalog L completedCourses st). nonNegative t"
proof (induction completedCourses arbitrary: D st)
  case Nil
  then show ?case by (simp add: preseedTrace_def)
next
  case (Cons i rest)
  have i: "i \<notin> D" "i \<notin> set rest" using Cons.prems by auto
  show ?case
  proof (cases "L i")
    case None
    have "\<forall>t\<in>set (preseedTrace catalog L rest st). nonNegative t"
      by (rule Cons.IH [of D]) (use Cons.prems in auto)
    with None show ?thesis
      by (simp add: preseedTrace_Cons preseedOneTrace_def preseedOne_def)
  next
    case (Some c)
    have 1: "\<forall>t\<in>set (decrementDependentsTrace catalog i st). nonNegative t"
      by (rule decrementDependentsTrace_nonNegative [OF d Cons.prems(1) i(1)])
    have 2: "\<forall>t\<in>set (preseedTrace catalog L rest (decrementDependents catalog i st)). nonNegative t"
      by (rule Cons.IH [of "insert i D"])
        (use Cons.prems i countersOK_decrementDependents [OF d Cons.prems(1) i(1)] in auto)
    from 1 2 Some show ?thesis
      by (simp add: preseedTrace_Cons preseedOneTrace_def preseedOne_def ball_Un)
  qed
qed

lemma updateStateTrace_nonNegative:
  assumes d: "distinct (map course_id catalog)"
  shows "countersOK catalog D st \<Longrightarrow> distinct ids \<Longrightarrow> set ids \<inter> D = {} \<Longrightarrow>
     \<forall>t\<in>set (updateStateTrace catalog ids st). nonNegative t"
proof (induction ids arbitrary: D st)
  case Nil
  then show ?case by (simp add: updateStateTrace_def)
next
  case (Cons i ids)
  have i: "i \<notin> D" using Cons.prems by simp
  have 1: "\<forall>t\<in>set (decrementDependentsTrace catalog i st). nonNegative t"
    by (rule decrementDependentsTrace_nonNegative [OF d Cons.prems(1) i])
  have "\<forall>t\<in>set (updateStateTrace catalog ids (decrementDependents catalog i st)). nonNegative t"
    by (rule Cons.IH [of "insert i D"])
      (use Cons.prems countersOK_decrementDependents [OF d Cons.prems(1) i] in auto)
  with 1 show ?case
    by (simp add: updateStateTrace_def ball_Un)
qed

subsection \<open>The counters during the term loop\<close>

lemma scheduledNow_ids:
  assumes cs: "lookupAll (courseLookupOf catalog) pool = Inr cs" and dp: "distinct pool"
  shows "distinct (map course_id (scheduledNow arraySort st sem cs))"
    and "set (map course_id (scheduledNow arraySort st sem cs)) \<subseteq> set pool"
proof -
  note cat = lookupAll_catalog [OF cs]
  show "distinct (map course_id (scheduledNow arraySort st sem cs))"
    using scheduledNow_distinct [of cs st sem] cat(1) dp by simp
  show "set (map course_id (scheduledNow arraySort st sem cs)) \<subseteq> set pool"
  proof
    fix i assume "i \<in> set (map course_id (scheduledNow arraySort st sem cs))"
    then obtain c where c: "c \<in> set (scheduledNow arraySort st sem cs)" "i = course_id c"
      by auto
    then have "c \<in> set cs" using scheduledNow_eligible by blast
    then have "course_id c \<in> set (map course_id cs)" by simp
    then show "i \<in> set pool" using cat(1) c(2) by simp
  qed
qed

lemma semesterTrace_nonNegative:
  assumes d: "distinct (map course_id catalog)"
    and pinv: "planInv catalog pool0 state"
    and cinv: "counterInv catalog completedCourses state"
    and t: "t \<in> set (semesterTrace arraySort catalog (courseLookupOf catalog) sem state)"
  shows "nonNegative t"
proof -
  obtain pool st sched where state: "state = (pool, st, sched)"
    by (cases state) auto
  let ?L = "courseLookupOf catalog"
  let ?D = "doneSet catalog completedCourses \<union> set (scheduledIds sched)"
  from pinv state have dist: "distinct (scheduledIds sched @ pool)"
    by (auto simp: planInv_def)
  from cinv state have ok: "countersOK catalog ?D st"
    and disj: "set pool \<inter> set completedCourses = {}"
    by (auto simp: counterInv_def)
  from t state obtain cs where cs: "lookupAll ?L pool = Inr cs"
    by (cases "lookupAll ?L pool") (auto simp: semesterTrace_def)
  let ?ids = "map course_id (scheduledNow arraySort st sem cs)"
  have dp: "distinct pool" using dist by simp
  note ids = scheduledNow_ids [OF cs dp, of st sem]
  have "doneSet catalog completedCourses \<subseteq> set completedCourses"
    by (auto simp: doneSet_def)
  then have fresh: "set ?ids \<inter> ?D = {}"
    using ids(2) disj dist by auto
  have "\<forall>t\<in>set (updateStateTrace catalog ?ids st). nonNegative t"
    using ok ids(1) fresh by (rule updateStateTrace_nonNegative [OF d])
  moreover have "t \<in> set (updateStateTrace catalog ?ids st)"
    using t by (simp add: state semesterTrace_def cs scheduledThisSemester_eq)
  ultimately show ?thesis by blast
qed

lemma termLoopTrace_nonNegative:
  assumes d: "distinct (map course_id catalog)"
    and known: "set pool0 \<subseteq> dom (courseLookupOf catalog)"
    and pinv: "planInv catalog pool0 state"
    and cinv: "counterInv catalog completedCourses state"
  shows "\<forall>t\<in>set (termLoopTrace arraySort catalog (courseLookupOf catalog) startYear state).
           nonNegative t"
proof -
  let ?P = "\<lambda>s. planInv catalog pool0 s \<and> counterInv catalog completedCourses s"
  let ?body = "scheduleSemester arraySort catalog (courseLookupOf catalog) startYear"
  let ?tr = "semesterTrace arraySort catalog (courseLookupOf catalog)"
  have step: "\<exists>s'. ?body yr sem s = Inr s' \<and> ?P s'" if "?P s" for yr sem s
    using scheduleSemester_invariants [OF d known] that by blast
  have obs: "nonNegative t" if "?P s" "t \<in> set (?tr sem s)" for sem s t
    using semesterTrace_nonNegative [OF d] that by blast
  have inner_run: "\<exists>s'. forEachE (?body yr) semesters s = Inr s' \<and> ?P s'" if "?P s" for yr s
    using that step by (rule forEachE_invariant)
  have inner_obs: "nonNegative t"
    if "?P s" "t \<in> set (forEachETrace (?body yr) ?tr semesters s)" for yr s t
    using forEachETrace_all [of ?P s "?body yr" ?tr nonNegative semesters] that step obs
    by blast
  have "?P state" using pinv cinv by simp
  then show ?thesis
    unfolding termLoopTrace_def using inner_run inner_obs
    by (rule forEachETrace_all)
qed

text \<open>
  Where no identifier repeats, the counters stay non-negative: if the catalog has no two rows
  with the same \<^verbatim>\<open>course_id\<close> and \<^verbatim>\<open>completedCourses\<close> lists no identifier twice, every
  counter map written during the run holds numbers that are at least zero.
\<close>

theorem counters_never_negative:
  assumes "distinct (map course_id catalog)" and "distinct completedCourses"
  shows "\<forall>st\<in>set (counterTrace requirements catalog completedCourses startYear). nonNegative st"
proof -
  have 1: "\<forall>t\<in>set (initializeTrace catalog). nonNegative t"
    by (rule initializeTrace_nonNegative)
  have 2: "\<forall>t\<in>set (preseedTrace catalog (courseLookupOf catalog) completedCourses
                     (initializePrereqStatus catalog)). nonNegative t"
    by (rule preseedTrace_nonNegative [OF assms(1) countersOK_initial [OF assms(1)] assms(2)]) simp
  have 3: "\<forall>t\<in>set (termLoopTrace arraySort catalog (courseLookupOf catalog) startYear
                     (initialState requirements catalog completedCourses)). nonNegative t"
    by (rule termLoopTrace_nonNegative
        [OF assms(1) initialPool_known planInv_initial counterInv_initial [OF assms]])
  from 1 2 3 show ?thesis
    by (simp add: counterTrace_def ball_Un)
qed

lemmas trace_defs =
  counterTrace_def initializeTrace_def preseedTrace_def preseedOneTrace_def
  decrementDependentsTrace_def decrementTrace_def termLoopTrace_def semesterTrace_def
  updateStateTrace_def scheduledThisSemester_def

text \<open>
  Claim C1. No counter of the counter map ever goes negative. The code does not keep this on
  an input that lists a completed course twice: \<^verbatim>\<open>MATH2\<close> requires \<^verbatim>\<open>MATH1\<close> only,
  \<^verbatim>\<open>completedCourses\<close> is \<^verbatim>\<open>['MATH1', 'MATH1']\<close>, and the second pass of the pre-seeding loop
  writes \<open>-1\<close> for \<^verbatim>\<open>MATH2\<close> (the fourth map of the run, after two initial writes and the
  first decrement).
\<close>

theorem counter_negative_by_repeated_completion:
  "map (\<lambda>st. st ''MATH2'')
     (counterTrace ([] :: requirement list) doubleCatalog [''MATH1'', ''MATH1''] 2024)
     = [Some (Num 1), Some (Num 1), Some (Num 0), Some (Num (- 1))]"
  by (simp add: trace_defs planner_defs doubleCatalog_def)

theorem counters_never_negative_witness:
  "distinct (map course_id exampleCatalog) \<and> distinct [''MATH1''] \<and>
   list_all nonNegative (counterTrace exampleRequirements exampleCatalog [''MATH1''] 2024) \<and>
   length (counterTrace exampleRequirements exampleCatalog [''MATH1''] 2024) = 5"
proof -
  have a: "distinct (map course_id exampleCatalog)"
    by (simp add: exampleCatalog_def)
  have b: "distinct [''MATH1'']" by simp
  have c: "length (counterTrace exampleRequirements exampleCatalog [''MATH1''] 2024) = 5"
    by (simp add: trace_defs planner_defs exampleCatalog_def exampleRequirements_def)
  have "list_all nonNegative (counterTrace exampleRequirements exampleCatalog [''MATH1''] 2024)"
    using counters_never_negative [OF a b, of exampleRequirements 2024]
    by (simp only: list_all_iff)
  with a b c show ?thesis by (intro conjI)
qed

subsection \<open>The term loop applies the semester step to the eight terms in order\<close>

lemma forEachE_append_list:
  "forEachE f (xs @ ys) s = (case forEachE f xs s of Inl e \<Rightarrow> Inl e | Inr s' \<Rightarrow> forEachE f ys s')"
proof (induction xs arbitrary: s)
  case Nil
  then show ?case by simp
next
  case (Cons x xs)
  then show ?case by (cases "f x s") simp_all
qed

lemma forEachE_pairs:
  "forEachE (f x) ys s = forEachE (\<lambda>(a, b). f a b) (map (Pair x) ys) s"
proof (induction ys arbitrary: s)
  case Nil
  then show ?case by simp
next
  case (Cons y ys)
  then show ?case by (cases "f x y s") simp_all
qed

lemma forEachE_nested:
  "forEachE (\<lambda>x. forEachE (f x) ys) xs s =
     forEachE (\<lambda>(a, b). f a b) (concat (map (\<lambda>x. map (Pair x) ys) xs)) s"
proof (induction xs arbitrary: s)
  case Nil
  then show ?case by simp
next
  case (Cons x xs)
  show ?case
  proof (cases "forEachE (f x) ys s")
    case (Inl e)
    then show ?thesis
      using forEachE_pairs [of f x ys s] by (simp add: forEachE_append_list)
  next
    case (Inr s1)
    then show ?thesis
      using forEachE_pairs [of f x ys s] Cons.IH [of s1] by (simp add: forEachE_append_list)
  qed
qed

lemma termLoop_eight_terms:
  "termLoop srt catalog L startYear s =
     forEachE (\<lambda>(yr, sem). scheduleSemester srt catalog L startYear yr sem)
       [(0, ''Fall''), (0, ''Spring''), (1, ''Fall''), (1, ''Spring''),
        (2, ''Fall''), (2, ''Spring''), (3, ''Fall''), (3, ''Spring'')] s"
proof -
  have "concat (map (\<lambda>yr. map (Pair yr) semesters) [0, 1, 2, 3 :: nat]) =
       [(0, ''Fall''), (0, ''Spring''), (1, ''Fall''), (1, ''Spring''),
        (2, ''Fall''), (2, ''Spring''), (3, ''Fall''), (3, ''Spring'')]"
    by (simp add: semesters_def)
  then show ?thesis
    unfolding termLoop_def
    using forEachE_nested [of "scheduleSemester srt catalog L startYear" semesters "[0, 1, 2, 3]" s]
    by (simp only:)
qed

subsection \<open>The sort\<close>



subsection \<open>The walk\<close>




subsection \<open>Determinism\<close>








subsection \<open>getRequirements\<close>

lemma programIdsQuery_empty:
  "programIdsQuery db programs = [] \<longleftrightarrow> \<not> resolves db programs"
  by (auto simp: programIdsQuery_def resolves_def filter_empty_conv)

lemma set_programIdsQuery:
  "set (programIdsQuery db programs) =
     {p_program_id p | p. p \<in> set (Programs db) \<and> p_name p \<in> set programs}"
  by (auto simp: programIdsQuery_def)

lemma rowRequirement_joinProgram:
  "row \<in> set (joinProgram db r) \<Longrightarrow> rowRequirement row = r"
  by (auto simp: joinProgram_def rowRequirement_def)

lemma requirementsQuery_rows:
  "rowRequirement ` set (requirementsQuery db (programIdsQuery db programs))
     = requirementsOfResolved db programs"
proof (intro equalityI subsetI)
  fix r assume "r \<in> rowRequirement ` set (requirementsQuery db (programIdsQuery db programs))"
  then obtain row r' where row: "row \<in> set (joinProgram db r')" "r = rowRequirement row"
    and r': "r' \<in> set (Requirements db)" "program_id r' \<in> set (programIdsQuery db programs)"
    by (auto simp: requirementsQuery_def)
  from row have "r = r'" by (simp add: rowRequirement_joinProgram)
  moreover from r'(2) obtain p where "p \<in> set (Programs db)" "p_name p \<in> set programs"
    "p_program_id p = program_id r'"
    by (auto simp: set_programIdsQuery)
  ultimately show "r \<in> requirementsOfResolved db programs"
    using r'(1) by (auto simp: requirementsOfResolved_def)
next
  fix r assume "r \<in> requirementsOfResolved db programs"
  then obtain p where r: "r \<in> set (Requirements db)"
    and p: "p \<in> set (Programs db)" "p_name p \<in> set programs" "p_program_id p = program_id r"
    by (auto simp: requirementsOfResolved_def)
  let ?row = "\<lparr>program_id = program_id r, options_pool = options_pool r, program_name = p_name p\<rparr>"
  have "p \<in> set (filter (\<lambda>p. program_id r = p_program_id p) (Programs db))"
    using p by simp
  then have "(\<lambda>p. \<lparr>program_id = program_id r, options_pool = options_pool r,
                program_name = p_name p\<rparr>) p \<in> set (joinProgram db r)"
    unfolding joinProgram_def set_map by (rule imageI)
  then have "?row \<in> set (joinProgram db r)" by simp
  moreover have "program_id r \<in> set (programIdsQuery db programs)"
  proof -
    have "p \<in> set (filter (\<lambda>p. p_name p \<in> set programs) (Programs db))"
      using p by simp
    then have "p_program_id p \<in> set (programIdsQuery db programs)"
      unfolding programIdsQuery_def set_map by (rule imageI)
    then show ?thesis by (simp only: p(3))
  qed
  ultimately have "?row \<in> set (requirementsQuery db (programIdsQuery db programs))"
    using r by (auto simp: requirementsQuery_def)
  moreover have "rowRequirement ?row = r"
    by (simp add: rowRequirement_def)
  ultimately show "r \<in> rowRequirement ` set (requirementsQuery db (programIdsQuery db programs))"
    by (metis image_eqI)
qed

text \<open>
  Claim C9. \<open>getRequirements\<close> raises its error exactly when none of the supplied non-empty
  names is the name of a known program; nothing is returned then. Otherwise it returns the
  requirements of all resolved programs together with the whole course table.
\<close>

theorem getRequirements_not_found_iff:
  "(\<not> resolves db (selectedPrograms major minor concentration) \<longrightarrow>
      getRequirements db major minor concentration
        = Inl (Error ''No programs found for the selected options.'')) \<and>
   (resolves db (selectedPrograms major minor concentration) \<longrightarrow>
      (\<exists>res. getRequirements db major minor concentration = Inr res \<and>
         rowRequirement ` set (result_requirements res)
           = requirementsOfResolved db (selectedPrograms major minor concentration) \<and>
         result_catalog res = Courses db))"
proof (intro conjI impI)
  assume "\<not> resolves db (selectedPrograms major minor concentration)"
  then have "programIdsQuery db (selectedPrograms major minor concentration) = []"
    by (simp add: programIdsQuery_empty)
  then show "getRequirements db major minor concentration
        = Inl (Error ''No programs found for the selected options.'')"
    by (simp add: getRequirements_def)
next
  assume "resolves db (selectedPrograms major minor concentration)"
  then have "programIdsQuery db (selectedPrograms major minor concentration) \<noteq> []"
    by (simp add: programIdsQuery_empty)
  then have "getRequirements db major minor concentration =
      Inr \<lparr>result_requirements =
             requirementsQuery db (programIdsQuery db (selectedPrograms major minor concentration)),
           result_catalog = Courses db\<rparr>"
    by (simp add: getRequirements_def Let_def)
  then show "\<exists>res. getRequirements db major minor concentration = Inr res \<and>
         rowRequirement ` set (result_requirements res)
           = requirementsOfResolved db (selectedPrograms major minor concentration) \<and>
         result_catalog res = Courses db"
    by (simp add: requirementsQuery_rows)
qed

theorem getRequirements_not_found_iff_witness:
  "\<not> resolves exampleDatabase (selectedPrograms (Some ''Physics'') (Some '''') None) \<and>
   getRequirements exampleDatabase (Some ''Physics'') (Some '''') None
     = Inl (Error ''No programs found for the selected options.'') \<and>
   selectedPrograms (Some ''Computer Science'') None (Some '''') = [''Computer Science''] \<and>
   resolves exampleDatabase (selectedPrograms (Some ''Computer Science'') None (Some '''')) \<and>
   (\<exists>res. getRequirements exampleDatabase (Some ''Computer Science'') None (Some '''') = Inr res \<and>
      rowRequirement ` set (result_requirements res)
        = requirementsOfResolved exampleDatabase
            (selectedPrograms (Some ''Computer Science'') None (Some '''')) \<and>
      result_catalog res = Courses exampleDatabase)"
proof -
  have no: "\<not> resolves exampleDatabase (selectedPrograms (Some ''Physics'') (Some '''') None)"
    by (simp add: resolves_def exampleDatabase_def selectedPrograms_def keepTruthy_def)
  have names: "selectedPrograms (Some ''Computer Science'') None (Some '''') = [''Computer Science'']"
    by (simp add: selectedPrograms_def keepTruthy_def)
  have yes: "resolves exampleDatabase (selectedPrograms (Some ''Computer Science'') None (Some ''''))"
    by (simp add: resolves_def exampleDatabase_def selectedPrograms_def keepTruthy_def)
  note A = getRequirements_not_found_iff [of exampleDatabase "Some ''Physics''" "Some ''''" None,
      THEN conjunct1, rule_format, OF no]
  note B = getRequirements_not_found_iff [of exampleDatabase "Some ''Computer Science''" None "Some ''''",
      THEN conjunct2, rule_format, OF yes]
  from no A names yes B show ?thesis
    by (intro conjI)
qed

subsection \<open>The trace and the final state\<close>

lemma last_Cons_append: "last (a # xs @ ys) = last (last (a # xs) # ys)"
  by (cases ys) simp_all

lemma last_forEachETrace:
  assumes step: "\<And>x s s'. f x s = Inr s' \<Longrightarrow> last (g s # tr x s) = g s'"
  shows "forEachE f xs s = Inr s' \<Longrightarrow> last (g s # forEachETrace f tr xs s) = g s'"
proof (induction xs arbitrary: s)
  case Nil
  then show ?case by simp
next
  case (Cons x xs)
  from Cons.prems obtain s1 where s1: "f x s = Inr s1" and rest: "forEachE f xs s1 = Inr s'"
    by (auto split: sum.splits)
  have "last (g s # tr x s @ forEachETrace f tr xs s1)
          = last (last (g s # tr x s) # forEachETrace f tr xs s1)"
    by (rule last_Cons_append)
  also have "\<dots> = last (g s1 # forEachETrace f tr xs s1)"
    by (simp only: step [OF s1])
  also have "\<dots> = g s'"
    by (rule Cons.IH [OF rest])
  finally show ?case using s1 by simp
qed

lemma termLoopTrace_last:
  assumes "termLoop srt catalog L startYear state = Inr state'"
  shows "last (fst (snd state) # termLoopTrace srt catalog L startYear state) = fst (snd state')"
proof -
  let ?body = "scheduleSemester srt catalog L startYear"
  have one: "last (fst (snd s) # semesterTrace srt catalog L sem s) = fst (snd s')"
    if "?body yr sem s = Inr s'" for yr sem s s'
  proof -
    obtain pool st sched where s: "s = (pool, st, sched)" by (cases s) auto
    obtain pool' st' sched' where s': "s' = (pool', st', sched')" by (cases s') auto
    from that show ?thesis
      unfolding s s' using last_semesterTrace [of srt catalog L startYear yr sem pool st sched]
      by simp
  qed
  have inner: "last (fst (snd s) # forEachETrace (?body yr) (semesterTrace srt catalog L) semesters s)
                 = fst (snd s')"
    if "forEachE (?body yr) semesters s = Inr s'" for yr s s'
    using one that by (rule last_forEachETrace [where g = "\<lambda>s. fst (snd s)"])
  from inner assms [unfolded termLoop_def] show ?thesis
    unfolding termLoopTrace_def
    by (rule last_forEachETrace [where g = "\<lambda>s. fst (snd s)"])
qed

lemma counterTrace_last:
  assumes "termLoop arraySort catalog (courseLookupOf catalog) startYear
             (initialState requirements catalog completedCourses) = Inr state'"
  shows "last (Map.empty # counterTrace requirements catalog completedCourses startYear)
           = fst (snd state')"
proof -
  let ?L = "courseLookupOf catalog"
  let ?s0 = "initialState requirements catalog completedCourses"
  have "last (Map.empty # counterTrace requirements catalog completedCourses startYear)
      = last (last (Map.empty # initializeTrace catalog) #
          preseedTrace catalog ?L completedCourses (initializePrereqStatus catalog) @
          termLoopTrace arraySort catalog ?L startYear ?s0)"
    unfolding counterTrace_def by (rule last_Cons_append)
  also have "\<dots> = last (initializePrereqStatus catalog #
          preseedTrace catalog ?L completedCourses (initializePrereqStatus catalog) @
          termLoopTrace arraySort catalog ?L startYear ?s0)"
    by (simp only: last_initializeTrace)
  also have "\<dots> = last (last (initializePrereqStatus catalog #
            preseedTrace catalog ?L completedCourses (initializePrereqStatus catalog)) #
          termLoopTrace arraySort catalog ?L startYear ?s0)"
    by (rule last_Cons_append)
  also have "\<dots> = last (fst (snd ?s0) # termLoopTrace arraySort catalog ?L startYear ?s0)"
    by (simp only: last_preseedTrace initialState_def fst_conv snd_conv)
  also have "\<dots> = fst (snd state')"
    by (rule termLoopTrace_last [OF assms])
  finally show ?thesis .
qed

subsection \<open>A term that schedules nothing\<close>


end
